theory Spec2Isabelle
  imports Main "HOL-Library.AList" "HOL-Library.Word"
begin

section \<open>JavaScript values and objects\<close>

text \<open>
  Field values and identifiers.  A number is an integer from \<open>-2^53\<close> to \<open>2^53 - 1\<close>,
  the range in which a number of the program holds every integer exactly and
  \<open>String(n)\<close> is its plain decimal rendering; it is a 54-bit word read as a signed
  value.  No arithmetic is done on numbers.
\<close>

datatype val = VNum "54 word" | VStr string | VBool bool | VNull

text \<open>Decimal rendering of a number, as \<open>String(n)\<close> and property-key coercion do.\<close>

fun string_of_nat :: "nat \<Rightarrow> string" where
  "string_of_nat n =
     (if n < 10 then [''0123456789'' ! n]
      else string_of_nat (n div 10) @ [''0123456789'' ! (n mod 10)])"

declare string_of_nat.simps [simp del]

definition string_of_int :: "int \<Rightarrow> string" where
  "string_of_int i = (if i < 0 then CHR ''-'' # string_of_nat (nat (- i)) else string_of_nat (nat i))"

definition key_of_val :: "val \<Rightarrow> string" where
  "key_of_val v =
     (case v of VNum i \<Rightarrow> string_of_int (sint i) | VStr s \<Rightarrow> s
      | VBool b \<Rightarrow> (if b then ''true'' else ''false'') | VNull \<Rightarrow> ''null'')"

text \<open>Reading a string of decimal digits.\<close>

definition digit_val :: "char \<Rightarrow> nat option" where
  "digit_val c = map_of (zip ''0123456789'' [0, 1, 2, 3, 4, 5, 6, 7, 8, 9]) c"

fun nat_of_digits :: "nat \<Rightarrow> string \<Rightarrow> nat option" where
  "nat_of_digits acc [] = Some acc"
| "nat_of_digits acc (c # cs) =
     (case digit_val c of None \<Rightarrow> None | Some d \<Rightarrow> nat_of_digits (10 * acc + d) cs)"

text \<open>
  A property key is an array index when it is the canonical decimal rendering of an
  integer below \<open>2^32 - 1\<close>.  Such keys are enumerated first, in ascending numeric
  order; every other key follows in creation order.
\<close>

definition array_index :: "string \<Rightarrow> nat option" where
  "array_index s =
     (if s = [] then None
      else case nat_of_digits 0 s of
             None \<Rightarrow> None
           | Some n \<Rightarrow> (if string_of_nat n = s \<and> n < 4294967295 then Some n else None))"

text \<open>
  An object is the list of its own properties in creation order; keys are distinct.
  Assignment \<open>o[k] = v\<close> is \<open>AList.update\<close> (overwrite in place, or append),
  \<open>delete o[k]\<close> is \<open>AList.delete\<close>, and \<open>o[k]\<close> is \<open>map_of\<close>, with \<open>None\<close> for
  \<open>undefined\<close>.
\<close>

type_synonym 'a obj = "(string \<times> 'a) list"

definition obj_keys :: "'a obj \<Rightarrow> string list" where
  "obj_keys ob =
     (let ks = map fst ob in
      sort_key (\<lambda>k. the (array_index k)) [k \<leftarrow> ks. array_index k \<noteq> None]
      @ [k \<leftarrow> ks. array_index k = None])"

text \<open>The entries of an object in enumeration order.\<close>

definition obj_entries :: "'a obj \<Rightarrow> (string \<times> 'a) list" where
  "obj_entries ob = map (\<lambda>k. (k, the (map_of ob k))) (obj_keys ob)"

text \<open>Object spread \<open>{ ...a, ...b }\<close>: a fresh object receiving the properties of
  \<open>a\<close>, then those of \<open>b\<close>, each in enumeration order.\<close>

definition spread :: "'a obj \<Rightarrow> 'a obj \<Rightarrow> 'a obj" where
  "spread a b = fold (\<lambda>(k, v). AList.update k v) (obj_entries b) (obj_entries a)"


section \<open>Data model\<close>

text \<open>
  A model instance: the entity name of the model class that constructed it, and its own
  properties (\<open>$id\<close> among them).  Tables hold model instances.
\<close>

record inst =
  ctor :: string
  props :: "val obj"

text \<open>A primary key is a field name or, for a composite key, a list of field names.
  A \<open>where\<close> field is compared with it by equality; the program compares a composite
  key by reference, so an equal list stands for the key array of the model itself, as
  \<open>whereId\<close> and \<open>whereIdIn\<close> pass it.\<close>

datatype pkey = PKName string | PKComposite "string list"

datatype wvalue = WScalar val | WArray "val list"

datatype boolop = And | Or

record whereclause =
  wfield :: pkey
  wvalue :: wvalue
  wboolean :: boolop

text \<open>
  The state of one query instance.  A \<open>Set\<close> is the list of its members in insertion
  order; \<open>None\<close> is \<open>null\<close>.  Queries without relation constraints and without eager
  loading are modelled, so \<open>Rollcaller.applyConstraints\<close> and the relation loading of
  \<open>collect\<close> do nothing.
\<close>

record query =
  entity :: string
  appliedOnBase :: bool
  idFilter :: "val list option"
  cancelIdFilter :: bool
  joinedIdFilter :: "val list option"
  wheres :: "whereclause list"
  orders :: "(string \<times> bool) list"
  offsetNumber :: nat
  limitNumber :: nat

text \<open>A before-mutation hook returns \<open>false\<close> or anything else.  Hook callbacks and
  predicates are functions of their arguments: they read the model they are given and
  change neither it nor the store.\<close>

datatype signal = ReturnsFalse | ReturnsOther

datatype callback =
    MutationCb "inst \<Rightarrow> string \<Rightarrow> signal"
  | RetrieveCb "inst list \<Rightarrow> string \<Rightarrow> inst list"

record hook =
  hid :: nat
  callback :: callback
  once :: bool

text \<open>
  The store and the static members of the query class.  \<open>tables b\<close> is
  \<open>rootState[b].data\<close>.  \<open>calls\<close> is a ghost log of the global mutation hooks invoked,
  oldest first: the hook's id and the model passed to it.
\<close>

record world =
  tables :: "string \<Rightarrow> inst obj"
  hooks :: "hook list obj"
  lastHookId :: nat
  calls :: "(nat \<times> inst) list"

datatype data = DRecord "val obj" | DArray "val obj list"

text \<open>
  The collaborators of the query class that live in other modules: the model registry,
  the model classes (constructor, index id, local hooks), the processor and the filter.
  \<open>instanceOf E c m\<close> holds when class \<open>c\<close> is \<open>m\<close> or extends it.
\<close>

record env =
  baseEntity :: "string \<Rightarrow> string"
  primaryKey :: "string \<Rightarrow> pkey"
  instanceOf :: "string \<Rightarrow> string \<Rightarrow> bool"
  getModelFromRecord :: "string \<Rightarrow> val obj \<Rightarrow> string option"
  typeKey :: "string \<Rightarrow> string"
  typeKeyValue :: "string \<Rightarrow> val"
  construct :: "string \<Rightarrow> val obj option \<Rightarrow> inst"
  getIndexIdFromRecord :: "string \<Rightarrow> inst \<Rightarrow> string"
  normalize :: "query \<Rightarrow> data \<Rightarrow> val obj obj obj"
  localMutationHook :: "string \<Rightarrow> string \<Rightarrow> (inst \<Rightarrow> string \<Rightarrow> signal) option"
  localRetrieveHook :: "string \<Rightarrow> string \<Rightarrow> (inst list \<Rightarrow> string \<Rightarrow> inst list) option"
  filterWhere :: "query \<Rightarrow> inst list \<Rightarrow> inst list"
  filterOrderBy :: "query \<Rightarrow> inst list \<Rightarrow> inst list"
  filterLimit :: "query \<Rightarrow> inst list \<Rightarrow> inst list"

section \<open>Query builder and identity index\<close>

text \<open>The constructor: \<open>new Query(state, entity)\<close>.\<close>

definition newQuery :: "env \<Rightarrow> string \<Rightarrow> query" where
  "newQuery E e =
     \<lparr> entity = e, appliedOnBase = (baseEntity E e = e), idFilter = None,
       cancelIdFilter = False, joinedIdFilter = None, wheres = [], orders = [],
       offsetNumber = 0, limitNumber = 2 ^ 53 - 1 \<rparr>"

text \<open>The table the query reads and replaces: \<open>this.state.data\<close>.\<close>

definition table :: "env \<Rightarrow> world \<Rightarrow> query \<Rightarrow> inst obj" where
  "table E w q = tables w (baseEntity E (entity q))"

definition set_table :: "env \<Rightarrow> query \<Rightarrow> inst obj \<Rightarrow> world \<Rightarrow> world" where
  "set_table E q t w = w \<lparr> tables := (tables w) (baseEntity E (entity q) := t) \<rparr>"

text \<open>\<open>new Set(values)\<close>: the members in first-insertion order.\<close>

definition js_set :: "val list \<Rightarrow> val list" where
  "js_set vs = fold (\<lambda>v acc. if v \<in> set acc then acc else acc @ [v]) vs []"

definition values_of :: "wvalue \<Rightarrow> val list" where
  "values_of v = (case v of WArray vs \<Rightarrow> vs | WScalar x \<Rightarrow> [x])"

definition isIdfilterable :: "env \<Rightarrow> query \<Rightarrow> pkey \<Rightarrow> bool" where
  "isIdfilterable E q field \<longleftrightarrow> field = primaryKey E (entity q) \<and> \<not> cancelIdFilter q"

definition setIdFilter :: "wvalue \<Rightarrow> query \<Rightarrow> query" where
  "setIdFilter v q =
     (case idFilter q of
        None \<Rightarrow> q \<lparr> idFilter := Some (js_set (values_of v)) \<rparr>
      | Some s \<Rightarrow> q \<lparr> idFilter := Some (js_set [x \<leftarrow> values_of v. x \<in> set s]) \<rparr>)"

definition setJoinedIdFilter :: "val list \<Rightarrow> query \<Rightarrow> query" where
  "setJoinedIdFilter vs q =
     (case joinedIdFilter q of
        None \<Rightarrow> q \<lparr> joinedIdFilter := Some (js_set vs) \<rparr>
      | Some s \<Rightarrow> q \<lparr> joinedIdFilter := Some (js_set [x \<leftarrow> vs. x \<in> set s]) \<rparr>)"

definition where_q :: "env \<Rightarrow> pkey \<Rightarrow> wvalue \<Rightarrow> query \<Rightarrow> query" where
  "where_q E field v q =
     (let q1 = (if isIdfilterable E q field then setIdFilter v q else q)
      in q1 \<lparr> wheres := wheres q1 @ [\<lparr> wfield = field, wvalue = v, wboolean = And \<rparr>] \<rparr>)"


definition whereId :: "env \<Rightarrow> val \<Rightarrow> query \<Rightarrow> query" where
  "whereId E v q = where_q E (primaryKey E (entity q)) (WScalar v) q"

definition whereIdIn :: "env \<Rightarrow> val list \<Rightarrow> query \<Rightarrow> query" where
  "whereIdIn E vs q = where_q E (primaryKey E (entity q)) (WArray vs) q"

definition whereFk :: "env \<Rightarrow> string \<Rightarrow> wvalue \<Rightarrow> query \<Rightarrow> query" where
  "whereFk E field v q =
     (if PKName field = primaryKey E (entity q) then setJoinedIdFilter (values_of v) q
      else where_q E (PKName field) (WArray (values_of v)) q)"

definition finalizeIdFilter :: "env \<Rightarrow> query \<Rightarrow> query" where
  "finalizeIdFilter E q =
     (case idFilter q of
        None \<Rightarrow> q
      | Some s \<Rightarrow>
          (if \<not> cancelIdFilter q then q
           else (where_q E (primaryKey E (entity q)) (WArray s) q) \<lparr> idFilter := None \<rparr>))"

text \<open>The ids to look up; table keys are strings.\<close>

definition getIdsToLookup :: "env \<Rightarrow> world \<Rightarrow> query \<Rightarrow> val list" where
  "getIdsToLookup E w q =
     (case (idFilter q, joinedIdFilter q) of
        (Some a, Some b) \<Rightarrow> [x \<leftarrow> a. x \<in> set b]
      | (Some a, None) \<Rightarrow> a
      | (None, Some b) \<Rightarrow> b
      | (None, None) \<Rightarrow> map VStr (obj_keys (table E w q)))"


section \<open>Hydration and hooks\<close>

text \<open>\<open>hydrate(record, forceModel)\<close>; the record may be \<open>undefined\<close>.\<close>

definition hydrate :: "env \<Rightarrow> query \<Rightarrow> val obj option \<Rightarrow> string option \<Rightarrow> inst" where
  "hydrate E q record forceModel =
     (case forceModel of
        Some fm \<Rightarrow> construct E fm record
      | None \<Rightarrow>
          (case record of
             None \<Rightarrow> construct E (entity q) None
           | Some r \<Rightarrow>
               (case getModelFromRecord E (entity q) r of
                  Some nm \<Rightarrow> construct E nm (Some r)
                | None \<Rightarrow>
                    (if \<not> appliedOnBase q
                     then construct E (entity q)
                            (Some (AList.update (typeKey E (entity q)) (typeKeyValue E (entity q)) r))
                     else construct E (entity q) (Some r)))))"

definition as_mutation :: "callback \<Rightarrow> inst \<Rightarrow> string \<Rightarrow> signal" where
  "as_mutation cb m e = (case cb of MutationCb f \<Rightarrow> f m e | RetrieveCb g \<Rightarrow> ReturnsOther)"

definition as_retrieve :: "callback \<Rightarrow> inst list \<Rightarrow> string \<Rightarrow> inst list" where
  "as_retrieve cb ms e = (case cb of RetrieveCb g \<Rightarrow> g ms e | MutationCb f \<Rightarrow> ms)"

text \<open>\<open>Query.on\<close> and \<open>Query.off\<close>.\<close>

definition on_hook :: "string \<Rightarrow> callback \<Rightarrow> bool \<Rightarrow> world \<Rightarrow> nat \<times> world" where
  "on_hook on cb onc w =
     (let i = lastHookId w + 1;
          hs = (case map_of (hooks w) on of None \<Rightarrow> [] | Some l \<Rightarrow> l)
      in (i, w \<lparr> hooks := AList.update on (hs @ [\<lparr> hid = i, callback = cb, once = onc \<rparr>]) (hooks w),
                 lastHookId := i \<rparr>))"

fun remove_first :: "nat \<Rightarrow> hook list \<Rightarrow> hook list" where
  "remove_first i [] = []"
| "remove_first i (h # hs) = (if hid h = i then hs else h # remove_first i hs)"

fun off_scan :: "nat \<Rightarrow> hook list obj \<Rightarrow> string list \<Rightarrow> bool \<times> hook list obj" where
  "off_scan i hk [] = (False, hk)"
| "off_scan i hk (on # ons) =
     (case map_of hk on of
        None \<Rightarrow> off_scan i hk ons
      | Some hs \<Rightarrow>
          (if i \<in> hid ` set hs then (True, AList.update on (remove_first i hs) hk)
           else off_scan i hk ons))"

definition off_hook :: "nat \<Rightarrow> world \<Rightarrow> bool \<times> world" where
  "off_hook i w = (case off_scan i (hooks w) (obj_keys (hooks w)) of (r, hk) \<Rightarrow> (r, w \<lparr> hooks := hk \<rparr>))"

text \<open>\<open>cleanGlobalHooksOn\<close> is only called for an event that has a hook list.\<close>

definition cleanGlobalHooksOn :: "string \<Rightarrow> world \<Rightarrow> world" where
  "cleanGlobalHooksOn on w =
     (case map_of (hooks w) on of
        None \<Rightarrow> w
      | Some hs \<Rightarrow> w \<lparr> hooks := AList.update on [h \<leftarrow> hs. \<not> once h] (hooks w) \<rparr>)"

definition executeGlobalRetrieveHook :: "query \<Rightarrow> string \<Rightarrow> inst list \<Rightarrow> world \<Rightarrow> inst list \<times> world" where
  "executeGlobalRetrieveHook q on models w =
     (case map_of (hooks w) on of
        None \<Rightarrow> (models, w)
      | Some hs \<Rightarrow>
          (fold (\<lambda>h c. as_retrieve (callback h) c (entity q)) hs models, cleanGlobalHooksOn on w))"

definition executeLocalRetrieveHook :: "env \<Rightarrow> query \<Rightarrow> string \<Rightarrow> inst list \<Rightarrow> inst list" where
  "executeLocalRetrieveHook E q on models =
     (case localRetrieveHook E (entity q) on of None \<Rightarrow> models | Some f \<Rightarrow> f models (entity q))"

definition executeRetrieveHook :: "env \<Rightarrow> query \<Rightarrow> string \<Rightarrow> inst list \<Rightarrow> world \<Rightarrow> inst list \<times> world" where
  "executeRetrieveHook E q on models w =
     executeGlobalRetrieveHook q on (executeLocalRetrieveHook E q on models) w"

text \<open>
  \<open>hooks.some(hook => callback(hook.callback) === false ? false : true)\<close>: the hooks
  are called in order until one makes the function return \<open>true\<close>.  The result of
  \<open>some\<close> and the hooks called.
\<close>

fun some_hooks :: "hook list \<Rightarrow> inst \<Rightarrow> string \<Rightarrow> bool \<times> hook list" where
  "some_hooks [] m e = (False, [])"
| "some_hooks (h # hs) m e =
     (if as_mutation (callback h) m e = ReturnsFalse
      then (case some_hooks hs m e of (r, called) \<Rightarrow> (r, h # called))
      else (True, [h]))"

definition log_calls :: "hook list \<Rightarrow> inst \<Rightarrow> world \<Rightarrow> world" where
  "log_calls hs m w = w \<lparr> calls := calls w @ map (\<lambda>h. (hid h, m)) hs \<rparr>"

definition executeGlobalBeforeMutationHooks :: "query \<Rightarrow> string \<Rightarrow> inst \<Rightarrow> world \<Rightarrow> signal \<times> world" where
  "executeGlobalBeforeMutationHooks q on m w =
     (case map_of (hooks w) on of
        None \<Rightarrow> (ReturnsOther, w)
      | Some hs \<Rightarrow>
          (if hs = [] then (ReturnsOther, w)
           else (case some_hooks hs m (entity q) of
                   (result, called) \<Rightarrow>
                     (if result = False then ReturnsFalse else ReturnsOther,
                      cleanGlobalHooksOn on (log_calls called m w)))))"

definition executeGlobalAfterMutationHooks :: "query \<Rightarrow> string \<Rightarrow> inst \<Rightarrow> world \<Rightarrow> world" where
  "executeGlobalAfterMutationHooks q on m w =
     (case map_of (hooks w) on of
        None \<Rightarrow> w
      | Some hs \<Rightarrow> cleanGlobalHooksOn on (log_calls hs m w))"

text \<open>
  The before and after hooks of one model: the local hook of the model class, then the
  global ones.  The program has one copy of each per event (create, update, delete);
  the event name is a parameter here.
\<close>

definition executeBeforeHook :: "env \<Rightarrow> query \<Rightarrow> string \<Rightarrow> inst \<Rightarrow> world \<Rightarrow> signal \<times> world" where
  "executeBeforeHook E q on m w =
     (if (case localMutationHook E (entity q) on of
            None \<Rightarrow> False
          | Some f \<Rightarrow> f m (entity q) = ReturnsFalse)
      then (ReturnsFalse, w)
      else executeGlobalBeforeMutationHooks q on m w)"

text \<open>The local after hook is called for its effect only and its result is dropped;
  callbacks are functions of their arguments here, so only the global hooks show.\<close>

definition executeAfterHook :: "env \<Rightarrow> query \<Rightarrow> string \<Rightarrow> inst \<Rightarrow> world \<Rightarrow> world" where
  "executeAfterHook E q on m w = executeGlobalAfterMutationHooks q on m w"

text \<open>\<open>executeBeforeCreateHookOnModels\<close> and \<open>executeBeforeUpdateHookOnModels\<close>:
  a vetoed model is deleted from the batch.\<close>

definition before_step :: "env \<Rightarrow> query \<Rightarrow> string \<Rightarrow> inst obj \<Rightarrow> string \<Rightarrow> inst obj \<times> world \<Rightarrow> inst obj \<times> world" where
  "before_step E q on models i acc =
     (case acc of (ms, w) \<Rightarrow>
        (case map_of models i of
           None \<Rightarrow> (ms, w)
         | Some m \<Rightarrow>
             (case executeBeforeHook E q on m w of
                (r, w') \<Rightarrow> (if r = ReturnsFalse then (AList.delete i ms, w') else (ms, w')))))"

definition executeBeforeHookOnModels :: "env \<Rightarrow> query \<Rightarrow> string \<Rightarrow> inst obj \<Rightarrow> world \<Rightarrow> inst obj \<times> world" where
  "executeBeforeHookOnModels E q on models w =
     fold (before_step E q on models) (obj_keys models) (models, w)"

definition executeAfterHookOnModels :: "env \<Rightarrow> query \<Rightarrow> string \<Rightarrow> inst obj \<Rightarrow> world \<Rightarrow> world" where
  "executeAfterHookOnModels E q on models w =
     fold (\<lambda>i w. case map_of models i of None \<Rightarrow> w | Some m \<Rightarrow> executeAfterHook E q on m w)
       (obj_keys models) w"

section \<open>Selection pipeline\<close>

text \<open>\<open>records()\<close>: the query after \<open>finalizeIdFilter\<close> and the candidate records.  An id
  with no table entry is hydrated from \<open>undefined\<close>.\<close>

definition records :: "env \<Rightarrow> world \<Rightarrow> query \<Rightarrow> query \<times> inst list" where
  "records E w q =
     (let q' = finalizeIdFilter E q in
      (q', [h \<leftarrow> map (\<lambda>i. case map_of (table E w q') (key_of_val i) of
                            Some m \<Rightarrow> m
                          | None \<Rightarrow> hydrate E q' None None)
                    (getIdsToLookup E w q').
              appliedOnBase q' \<or> instanceOf E (ctor h) (entity q')]))"

text \<open>The stages of \<open>select\<close> that follow \<open>records()\<close>.\<close>

definition stages :: "env \<Rightarrow> query \<Rightarrow> inst list \<Rightarrow> world \<Rightarrow> inst list \<times> world" where
  "stages E q r0 w =
     (case executeRetrieveHook E q ''beforeSelect'' r0 w of (r1, w1) \<Rightarrow>
      case executeRetrieveHook E q ''afterWhere'' (filterWhere E q r1) w1 of (r2, w2) \<Rightarrow>
      case executeRetrieveHook E q ''afterOrderBy'' (filterOrderBy E q r2) w2 of (r3, w3) \<Rightarrow>
      executeRetrieveHook E q ''afterLimit'' (filterLimit E q r3) w3)"

definition select :: "env \<Rightarrow> world \<Rightarrow> query \<Rightarrow> inst list \<times> world" where
  "select E w q = (case records E w q of (q', r0) \<Rightarrow> stages E q' r0 w)"

definition get :: "env \<Rightarrow> world \<Rightarrow> query \<Rightarrow> inst list \<times> world" where
  "get E w q = select E w q"

definition find :: "env \<Rightarrow> world \<Rightarrow> query \<Rightarrow> string \<Rightarrow> inst option" where
  "find E w q i = map_of (table E w q) i"


section \<open>Persistence pipeline\<close>

text \<open>\<open>map(instances)\<close>: the instances in enumeration order.\<close>

definition map_instances :: "inst obj \<Rightarrow> inst list" where
  "map_instances instances = map snd (obj_entries instances)"

definition hydrateMany :: "env \<Rightarrow> query \<Rightarrow> val obj obj \<Rightarrow> inst obj" where
  "hydrateMany E q recs =
     fold (\<lambda>(i, r). AList.update i (hydrate E q (Some r) None)) (obj_entries recs) []"

text \<open>\<open>emptyState\<close>, on the table.\<close>

definition emptyState :: "env \<Rightarrow> query \<Rightarrow> inst obj \<Rightarrow> inst obj" where
  "emptyState E q t =
     (if appliedOnBase q then []
      else [(i, m) \<leftarrow> t. \<not> instanceOf E (ctor m) (entity q)])"

definition createMany :: "env \<Rightarrow> query \<Rightarrow> val obj obj \<Rightarrow> world \<Rightarrow> inst list \<times> world" where
  "createMany E q recs w =
     (case executeBeforeHookOnModels E q ''beforeCreate'' (hydrateMany E q recs) w of
        (instances, w1) \<Rightarrow>
          (let w2 = set_table E q (spread (emptyState E q (table E w1 q)) instances) w1
           in (map_instances instances, executeAfterHookOnModels E q ''afterCreate'' instances w2)))"

definition insertMany :: "env \<Rightarrow> query \<Rightarrow> val obj obj \<Rightarrow> world \<Rightarrow> inst list \<times> world" where
  "insertMany E q recs w =
     (case executeBeforeHookOnModels E q ''beforeCreate'' (hydrateMany E q recs) w of
        (instances, w1) \<Rightarrow>
          (let w2 = set_table E q (spread (table E w1 q) instances) w1
           in (map_instances instances, executeAfterHookOnModels E q ''afterCreate'' instances w2)))"

text \<open>The merge of \<open>combine\<close> and of \<open>processUpdate\<close> for a record: the existing
  instance keeps its own model class when that is not the model of the query.\<close>

definition merge_instance :: "env \<Rightarrow> query \<Rightarrow> inst \<Rightarrow> val obj \<Rightarrow> inst" where
  "merge_instance E q instance r =
     (if ctor instance \<noteq> entity q
      then hydrate E q (Some (spread (props instance) r)) (Some (ctor instance))
      else hydrate E q (Some (spread (props instance) r)) None)"

definition combine :: "env \<Rightarrow> world \<Rightarrow> query \<Rightarrow> val obj obj \<Rightarrow> inst obj" where
  "combine E w q recs =
     fold (\<lambda>(i, r) instances.
             case map_of (table E w q) i of
               None \<Rightarrow> instances
             | Some instance \<Rightarrow> AList.update i (merge_instance E q instance r) instances)
       (obj_entries recs) []"

text \<open>\<open>updateIndexes\<close>: the keys are read once, the object is changed in place.\<close>

definition reindex_step :: "env \<Rightarrow> query \<Rightarrow> string \<Rightarrow> inst obj \<Rightarrow> inst obj" where
  "reindex_step E q key instances =
     (case map_of instances key of
        None \<Rightarrow> instances
      | Some instance \<Rightarrow>
          (let i = getIndexIdFromRecord E (entity q) instance in
           if key \<noteq> i
           then AList.delete key
                  (AList.update i (instance \<lparr> props := AList.update ''$id'' (VStr i) (props instance) \<rparr>)
                     instances)
           else instances))"

definition updateIndexes :: "env \<Rightarrow> query \<Rightarrow> inst obj \<Rightarrow> inst obj" where
  "updateIndexes E q instances = fold (reindex_step E q) (obj_keys instances) instances"

text \<open>\<open>commitUpdate\<close>; \<open>commitUpdate_run\<close> also gives the batch object as the call
  leaves it, which \<open>updateById\<close> reads afterwards.\<close>

definition commitUpdate_run :: "env \<Rightarrow> query \<Rightarrow> inst obj \<Rightarrow> world \<Rightarrow> inst obj \<times> world" where
  "commitUpdate_run E q instances0 w =
     (case executeBeforeHookOnModels E q ''beforeUpdate'' (updateIndexes E q instances0) w of
        (instances, w1) \<Rightarrow>
          (let w2 = set_table E q (spread (table E w1 q) instances) w1
           in (instances, executeAfterHookOnModels E q ''afterUpdate'' instances w2)))"

definition commitUpdate :: "env \<Rightarrow> query \<Rightarrow> inst obj \<Rightarrow> world \<Rightarrow> inst list \<times> world" where
  "commitUpdate E q instances0 w =
     (case commitUpdate_run E q instances0 w of (instances, w') \<Rightarrow> (map_instances instances, w'))"

definition updateMany :: "env \<Rightarrow> query \<Rightarrow> val obj obj \<Rightarrow> world \<Rightarrow> inst list \<times> world" where
  "updateMany E q recs w = commitUpdate E q (combine E w q recs) w"

text \<open>\<open>insertOrUpdateMany\<close>: the two batches, then \<open>insertMany\<close> and \<open>updateMany\<close> in
  the order the array literal evaluates them.\<close>

definition toBeUpdated :: "env \<Rightarrow> world \<Rightarrow> query \<Rightarrow> val obj obj \<Rightarrow> val obj obj" where
  "toBeUpdated E w q recs =
     fold (\<lambda>(i, r). if map_of (table E w q) i \<noteq> None then AList.update i r else id)
       (obj_entries recs) []"

definition toBeInserted :: "env \<Rightarrow> world \<Rightarrow> query \<Rightarrow> val obj obj \<Rightarrow> val obj obj" where
  "toBeInserted E w q recs =
     fold (\<lambda>(i, r). if map_of (table E w q) i \<noteq> None then id else AList.update i r)
       (obj_entries recs) []"

definition insertOrUpdateMany :: "env \<Rightarrow> query \<Rightarrow> val obj obj \<Rightarrow> world \<Rightarrow> inst list \<times> world" where
  "insertOrUpdateMany E q recs w =
     (case insertMany E q (toBeInserted E w q recs) w of
        (inserted, w1) \<Rightarrow>
          (case updateMany E q (toBeUpdated E w q recs) w1 of
             (updated, w2) \<Rightarrow> (inserted @ updated, w2)))"

datatype pmethod = Create | Insert | Update | InsertOrUpdate

record persistOptions =
  opt_create :: "string list"
  opt_insert :: "string list"
  opt_update :: "string list"
  opt_insertOrUpdate :: "string list"

definition getPersistMethod :: "string \<Rightarrow> pmethod \<Rightarrow> persistOptions \<Rightarrow> pmethod" where
  "getPersistMethod e method options =
     (if e \<in> set (opt_create options) then Create
      else if e \<in> set (opt_insert options) then Insert
      else if e \<in> set (opt_update options) then Update
      else if e \<in> set (opt_insertOrUpdate options) then InsertOrUpdate
      else method)"

definition persistMany :: "env \<Rightarrow> pmethod \<Rightarrow> query \<Rightarrow> val obj obj \<Rightarrow> world \<Rightarrow> inst list \<times> world" where
  "persistMany E m q recs w =
     (case m of
        Create \<Rightarrow> createMany E q recs w
      | Insert \<Rightarrow> insertMany E q recs w
      | Update \<Rightarrow> updateMany E q recs w
      | InsertOrUpdate \<Rightarrow> insertOrUpdateMany E q recs w)"

definition persist_step ::
  "env \<Rightarrow> pmethod \<Rightarrow> persistOptions \<Rightarrow> string \<times> val obj obj \<Rightarrow> inst list obj \<times> world \<Rightarrow> inst list obj \<times> world" where
  "persist_step E method options ent acc =
     (case (ent, acc) of ((e, recs), (collection, w)) \<Rightarrow>
        (case persistMany E (getPersistMethod e method options) (newQuery E e) recs w of
           (rs, w') \<Rightarrow> (if rs \<noteq> [] then AList.update e rs collection else collection, w')))"

definition persist :: "env \<Rightarrow> query \<Rightarrow> data \<Rightarrow> pmethod \<Rightarrow> persistOptions \<Rightarrow> world \<Rightarrow> inst list obj \<times> world" where
  "persist E q d method options w =
     (let nd = normalize E q d in
      if nd = []
      then ([], if method = Create then set_table E q (emptyState E q (table E w q)) w else w)
      else fold (persist_step E method options) (obj_entries nd) ([], w))"

definition create :: "env \<Rightarrow> query \<Rightarrow> data \<Rightarrow> persistOptions \<Rightarrow> world \<Rightarrow> inst list obj \<times> world" where
  "create E q d options w = persist E q d Create options w"

definition insert_q :: "env \<Rightarrow> query \<Rightarrow> data \<Rightarrow> persistOptions \<Rightarrow> world \<Rightarrow> inst list obj \<times> world" where
  "insert_q E q d options w = persist E q d Insert options w"

definition insertOrUpdate :: "env \<Rightarrow> query \<Rightarrow> data \<Rightarrow> persistOptions \<Rightarrow> world \<Rightarrow> inst list obj \<times> world" where
  "insertOrUpdate E q d options w = persist E q d InsertOrUpdate options w"


subsection \<open>Update\<close>

datatype udata = URecord "val obj" | UArray "val obj list" | UClosure "inst \<Rightarrow> inst"

datatype ucondition = CNone | CScalar val | CPredicate "inst \<Rightarrow> bool"

datatype uresult = Collections "inst list obj" | Item "inst option" | Collection "inst list"

datatype error = ClosureWithoutCondition | ScalarConditionOnCompositeKey

text \<open>\<open>!condition\<close>.\<close>

definition falsy :: "ucondition \<Rightarrow> bool" where
  "falsy c =
     (case c of
        CNone \<Rightarrow> True
      | CScalar v \<Rightarrow> (v = VNum 0 \<or> v = VStr [] \<or> v = VBool False \<or> v = VNull)
      | CPredicate p \<Rightarrow> False)"

text \<open>
  \<open>processUpdate\<close>.  A closure changes the instance it is given, which is the object
  the table holds: \<open>writeback\<close> puts the changed objects (with the \<open>$id\<close> that
  \<open>updateIndexes\<close> assigns to them) back under the keys they have in the table.
\<close>

definition processUpdate :: "env \<Rightarrow> query \<Rightarrow> udata \<Rightarrow> inst \<Rightarrow> inst" where
  "processUpdate E q d instance =
     (case d of
        UClosure f \<Rightarrow> f instance
      | URecord r \<Rightarrow> merge_instance E q instance r
      | UArray rs \<Rightarrow> instance)"

definition writeback :: "env \<Rightarrow> query \<Rightarrow> udata \<Rightarrow> inst obj \<Rightarrow> world \<Rightarrow> world" where
  "writeback E q d instances w =
     (case d of
        UClosure f \<Rightarrow>
          set_table E q
            (fold (\<lambda>(k, ob).
                     let i = getIndexIdFromRecord E (entity q) ob in
                     AList.update k
                       (if k \<noteq> i then ob \<lparr> props := AList.update ''$id'' (VStr i) (props ob) \<rparr> else ob))
               (obj_entries instances) (table E w q)) w
      | _ \<Rightarrow> w)"

definition updateById :: "env \<Rightarrow> query \<Rightarrow> udata \<Rightarrow> val \<Rightarrow> world \<Rightarrow> inst option \<times> world" where
  "updateById E q d v w =
     (let i = key_of_val v in
      case map_of (table E w q) i of
        None \<Rightarrow> (None, w)
      | Some instance \<Rightarrow>
          (let instances = [(i, processUpdate E q d instance)] in
           case commitUpdate_run E q instances (writeback E q d instances w) of
             (instances', w') \<Rightarrow> (map_of instances' i, w')))"

definition updateByCondition :: "env \<Rightarrow> query \<Rightarrow> udata \<Rightarrow> (inst \<Rightarrow> bool) \<Rightarrow> world \<Rightarrow> inst list \<times> world" where
  "updateByCondition E q d cond w =
     (let instances =
            fold (\<lambda>(i, instance) acc.
                    if \<not> cond instance then acc
                    else AList.update i (processUpdate E q d instance) acc)
              (obj_entries (table E w q)) []
      in commitUpdate E q instances (writeback E q d instances w))"

text \<open>\<open>update\<close>.  A raised error is \<open>Inl\<close>, with the store as the call leaves it.\<close>

definition update_q ::
  "env \<Rightarrow> query \<Rightarrow> udata \<Rightarrow> ucondition \<Rightarrow> persistOptions \<Rightarrow> world \<Rightarrow> (error \<times> world) + (uresult \<times> world)" where
  "update_q E q d condition options w =
     (case d of
        UArray rs \<Rightarrow>
          (case persist E q (DArray rs) Update options w of (c, w') \<Rightarrow> Inr (Collections c, w'))
      | UClosure f \<Rightarrow>
          (if falsy condition then Inl (ClosureWithoutCondition, w)
           else case condition of
                  CPredicate p \<Rightarrow>
                    (case updateByCondition E q d p w of (c, w') \<Rightarrow> Inr (Collection c, w'))
                | CScalar v \<Rightarrow>
                    (case updateById E q d v w of (r, w') \<Rightarrow> Inr (Item r, w'))
                | CNone \<Rightarrow> Inl (ClosureWithoutCondition, w))
      | URecord r \<Rightarrow>
          (case condition of
             CPredicate p \<Rightarrow>
               (case updateByCondition E q d p w of (c, w') \<Rightarrow> Inr (Collection c, w'))
           | CNone \<Rightarrow>
               (case persist E q (DRecord r) Update options w of
                  (c, w') \<Rightarrow> Inr (Collections c, w'))
           | CScalar v \<Rightarrow>
               (if falsy condition
                then (case persist E q (DRecord r) Update options w of
                        (c, w') \<Rightarrow> Inr (Collections c, w'))
                else case primaryKey E (entity q) of
                       PKComposite fs \<Rightarrow> Inl (ScalarConditionOnCompositeKey, w)
                     | PKName f \<Rightarrow>
                         (case updateById E q d v w of (r, w') \<Rightarrow> Inr (Item r, w')))))"

subsection \<open>Delete\<close>

text \<open>\<open>deleteByCondition\<close>: the predicate it gives to \<open>filterData\<close> is run on every
  entry of the table in enumeration order; the table is replaced at the end.\<close>

definition delete_step ::
  "env \<Rightarrow> query \<Rightarrow> (inst \<Rightarrow> bool) \<Rightarrow> string \<times> inst \<Rightarrow> inst obj \<times> inst list \<times> world \<Rightarrow> inst obj \<times> inst list \<times> world" where
  "delete_step E q cond ent acc =
     (case (ent, acc) of ((i, model), (models, deleted, w)) \<Rightarrow>
        if \<not> cond model then (AList.update i model models, deleted, w)
        else (case executeBeforeHook E q ''beforeDelete'' model w of
                (r, w') \<Rightarrow>
                  if r = ReturnsFalse then (AList.update i model models, deleted, w')
                  else (models, deleted @ [model], executeAfterHook E q ''afterDelete'' model w')))"

definition deleteByCondition :: "env \<Rightarrow> query \<Rightarrow> (inst \<Rightarrow> bool) \<Rightarrow> world \<Rightarrow> inst list \<times> world" where
  "deleteByCondition E q cond w =
     (case fold (delete_step E q cond) (obj_entries (table E w q)) ([], [], w) of
        (models, deleted, w') \<Rightarrow> (deleted, set_table E q models w'))"

definition deleteById :: "env \<Rightarrow> query \<Rightarrow> string \<Rightarrow> world \<Rightarrow> inst option \<times> world" where
  "deleteById E q i w =
     (case find E w q i of
        None \<Rightarrow> (None, w)
      | Some item \<Rightarrow>
          (case deleteByCondition E q (\<lambda>m. map_of (props m) ''$id'' = map_of (props item) ''$id'') w of
             (deleted, w') \<Rightarrow> (case deleted of [] \<Rightarrow> None | m # ms \<Rightarrow> Some m, w')))"

definition deleteAll :: "env \<Rightarrow> query \<Rightarrow> world \<Rightarrow> inst list \<times> world" where
  "deleteAll E q w =
     (if appliedOnBase q then deleteByCondition E q (\<lambda>m. True) w
      else deleteByCondition E q (\<lambda>m. instanceOf E (ctor m) (entity q)) w)"


section \<open>Query chains and the full scan\<close>

text \<open>A chain of primary-key constraints \<open>where(pk, v)\<close>; \<open>whereId\<close> and \<open>whereIdIn\<close>
  are the cases of a scalar and of an array.\<close>

definition pk_chain :: "env \<Rightarrow> wvalue list \<Rightarrow> query \<Rightarrow> query" where
  "pk_chain E vs q = fold (\<lambda>v q. where_q E (primaryKey E (entity q)) v q) vs q"






text \<open>
  The reference the index is compared with: every record of the table that the query
  may return, in enumeration order, given to the stages of \<open>select\<close>; no key lookup.
\<close>

definition full_scan :: "env \<Rightarrow> world \<Rightarrow> query \<Rightarrow> inst list" where
  "full_scan E w q =
     [m \<leftarrow> map snd (obj_entries (table E w q)). appliedOnBase q \<or> instanceOf E (ctor m) (entity q)]"



text \<open>No retrieve hook is registered for the query, locally or globally.\<close>

definition no_retrieve_hooks :: "env \<Rightarrow> world \<Rightarrow> query \<Rightarrow> bool" where
  "no_retrieve_hooks E w q \<longleftrightarrow>
     (\<forall>on. localRetrieveHook E (entity q) on = None) \<and>
     (\<forall>on \<in> {''beforeSelect'', ''afterWhere'', ''afterOrderBy'', ''afterLimit''}.
        map_of (hooks w) on = None)"

section \<open>A concrete registry, processor and filter\<close>

text \<open>
  Modelled from the spec: the model classes, the processor and the filter are not part
  of the sources.  A model instance carries the properties of the record it is built
  from; the index id of a record is its primary-key value as a string, a composite key
  in array notation; the processor keys each record of the input by its index id under
  the entity of the query; the filter keeps a record when all its \<open>and\<close> clauses hold or
  one of its \<open>or\<close> clauses holds, a clause comparing a field with a value or with the
  members of an array.  The registry has a flat entity \<open>users\<close> and a hierarchy
  \<open>people\<close> with the derived entities \<open>adults\<close> and \<open>children\<close>, told apart by the
  field \<open>type\<close>.
\<close>

definition simple_construct :: "string \<Rightarrow> val obj option \<Rightarrow> inst" where
  "simple_construct m r = \<lparr> ctor = m, props = (case r of None \<Rightarrow> [] | Some ps \<Rightarrow> ps) \<rparr>"

definition json_of_val :: "val \<Rightarrow> string" where
  "json_of_val v = (case v of VStr s \<Rightarrow> CHR 0x22 # s @ [CHR 0x22] | _ \<Rightarrow> key_of_val v)"

fun join_comma :: "string list \<Rightarrow> string" where
  "join_comma [] = []"
| "join_comma [s] = s"
| "join_comma (s # t # ss) = s @ '','' @ join_comma (t # ss)"

definition field_of :: "val obj \<Rightarrow> string \<Rightarrow> val" where
  "field_of ps f = (case map_of ps f of None \<Rightarrow> VNull | Some v \<Rightarrow> v)"

definition simple_index_id :: "pkey \<Rightarrow> inst \<Rightarrow> string" where
  "simple_index_id pk m =
     (case pk of
        PKName f \<Rightarrow> key_of_val (field_of (props m) f)
      | PKComposite fs \<Rightarrow> ''['' @ join_comma (map (\<lambda>f. json_of_val (field_of (props m) f)) fs) @ '']'')"

definition clause_holds :: "whereclause \<Rightarrow> inst \<Rightarrow> bool" where
  "clause_holds c m =
     (case wfield c of
        PKName f \<Rightarrow>
          (case wvalue c of
             WScalar v \<Rightarrow> field_of (props m) f = v
           | WArray vs \<Rightarrow> field_of (props m) f \<in> set vs)
      | PKComposite fs \<Rightarrow> False)"

definition simple_where :: "query \<Rightarrow> inst list \<Rightarrow> inst list" where
  "simple_where q rs =
     (if wheres q = [] then rs
      else [m \<leftarrow> rs.
              (let ands = [c \<leftarrow> wheres q. wboolean c = And];
                   ors = [c \<leftarrow> wheres q. wboolean c = Or]
               in (ands \<noteq> [] \<and> (\<forall>c \<in> set ands. clause_holds c m))
                  \<or> (\<exists>c \<in> set ors. clause_holds c m))])"

definition demo_pk :: "string \<Rightarrow> pkey" where
  "demo_pk e = PKName ''id''"

definition demo_base :: "string \<Rightarrow> string" where
  "demo_base e = (if e = ''adults'' \<or> e = ''children'' then ''people'' else e)"

definition demo_instanceOf :: "string \<Rightarrow> string \<Rightarrow> bool" where
  "demo_instanceOf c m \<longleftrightarrow> c = m \<or> (m = ''people'' \<and> (c = ''adults'' \<or> c = ''children''))"

definition demo_modelFromRecord :: "string \<Rightarrow> val obj \<Rightarrow> string option" where
  "demo_modelFromRecord e r =
     (if demo_base e = ''people''
      then (if map_of r ''type'' = Some (VStr ''adult'') then Some ''adults''
            else if map_of r ''type'' = Some (VStr ''child'') then Some ''children''
            else None)
      else None)"

definition demo_typeValue :: "string \<Rightarrow> val" where
  "demo_typeValue e =
     (if e = ''adults'' then VStr ''adult'' else if e = ''children'' then VStr ''child'' else VNull)"

definition simple_normalize :: "query \<Rightarrow> data \<Rightarrow> val obj obj obj" where
  "simple_normalize q d =
     (let rs = (case d of DRecord r \<Rightarrow> [r] | DArray l \<Rightarrow> l) in
      if rs = [] then []
      else [(entity q,
             fold (\<lambda>r. let i = simple_index_id (demo_pk (entity q)) (simple_construct (entity q) (Some r))
                        in AList.update i (AList.update ''$id'' (VStr i) r)) rs [])])"

definition demo_env :: env where
  "demo_env =
     \<lparr> baseEntity = demo_base, primaryKey = demo_pk, instanceOf = demo_instanceOf,
       getModelFromRecord = demo_modelFromRecord, typeKey = (\<lambda>e. ''type''),
       typeKeyValue = demo_typeValue, construct = simple_construct,
       getIndexIdFromRecord = (\<lambda>e. simple_index_id (demo_pk e)),
       normalize = simple_normalize,
       localMutationHook = (\<lambda>e on. None), localRetrieveHook = (\<lambda>e on. None),
       filterWhere = simple_where, filterOrderBy = (\<lambda>q rs. rs), filterLimit = (\<lambda>q rs. rs) \<rparr>"

text \<open>The table of the examples: \<open>{ "1": {id: 1, name: "a"}, "2": {id: 2, name: "b"} }\<close>.\<close>

definition user_a :: inst where
  "user_a = \<lparr> ctor = ''users'', props = [(''$id'', VStr ''1''), (''id'', VNum 1), (''name'', VStr ''a'')] \<rparr>"

definition user_b :: inst where
  "user_b = \<lparr> ctor = ''users'', props = [(''$id'', VStr ''2''), (''id'', VNum 2), (''name'', VStr ''b'')] \<rparr>"

definition demo_world :: world where
  "demo_world =
     \<lparr> tables = (\<lambda>e. if e = ''users'' then [(''1'', user_a), (''2'', user_b)] else []),
       hooks = [], lastHookId = 0, calls = [] \<rparr>"

section \<open>Concrete inputs\<close>

definition no_options :: persistOptions where
  "no_options = \<lparr> opt_create = [], opt_insert = [], opt_update = [], opt_insertOrUpdate = [] \<rparr>"

text \<open>The record \<open>{id: 3, name: "c"}\<close> and the instance the processor and hydration make
  of it.\<close>

definition record_c :: "val obj" where
  "record_c = [(''id'', VNum 3), (''name'', VStr ''c'')]"

definition user_c :: inst where
  "user_c = \<lparr> ctor = ''users'', props = [(''id'', VNum 3), (''name'', VStr ''c''), (''$id'', VStr ''3'')] \<rparr>"

text \<open>Two global \<open>beforeCreate\<close> hooks registered on the example store: the first
  returns \<open>false\<close>, the second does not.\<close>

definition veto_then_pass_world :: world where
  "veto_then_pass_world =
     snd (on_hook ''beforeCreate'' (MutationCb (\<lambda>m e. ReturnsOther)) False
       (snd (on_hook ''beforeCreate'' (MutationCb (\<lambda>m e. ReturnsFalse)) False demo_world)))"


text \<open>The example registry with the composite primary key \<open>[a, b]\<close> on every model.\<close>

definition composite_env :: env where
  "composite_env = demo_env \<lparr> primaryKey := (\<lambda>e. PKComposite [''a'', ''b'']) \<rparr>"

text \<open>The first example record after its \<open>id\<close> has been changed to 5.\<close>

definition moved_a :: inst where
  "moved_a = \<lparr> ctor = ''users'', props = [(''$id'', VStr ''5''), (''id'', VNum 5), (''name'', VStr ''a'')] \<rparr>"

text \<open>A store whose \<open>people\<close> table holds an adult under \<open>1\<close> and a child under \<open>2\<close>.\<close>

definition adult_1 :: inst where
  "adult_1 = \<lparr> ctor = ''adults'', props = [(''$id'', VStr ''1''), (''id'', VNum 1), (''type'', VStr ''adult'')] \<rparr>"

definition child_2 :: inst where
  "child_2 = \<lparr> ctor = ''children'', props = [(''$id'', VStr ''2''), (''id'', VNum 2), (''type'', VStr ''child'')] \<rparr>"

definition people_world :: world where
  "people_world =
     \<lparr> tables = (\<lambda>e. if e = ''people'' then [(''1'', adult_1), (''2'', child_2)] else []),
       hooks = [], lastHookId = 0, calls = [] \<rparr>"

text \<open>Two global \<open>beforeDelete\<close> hooks registered on the example store: the first
  returns \<open>false\<close>, the second does not.\<close>

definition veto_then_pass_delete_world :: world where
  "veto_then_pass_delete_world =
     snd (on_hook ''beforeDelete'' (MutationCb (\<lambda>m e. ReturnsOther)) False
       (snd (on_hook ''beforeDelete'' (MutationCb (\<lambda>m e. ReturnsFalse)) False demo_world)))"

section \<open>Hook bookkeeping\<close>

text \<open>The global hooks registered for an event, and the models a hook id was called
  with according to a piece of the call log.\<close>

definition hooks_on :: "world \<Rightarrow> string \<Rightarrow> hook list" where
  "hooks_on w on = (case map_of (hooks w) on of None \<Rightarrow> [] | Some hs \<Rightarrow> hs)"

definition invoked_on :: "nat \<Rightarrow> (nat \<times> inst) list \<Rightarrow> inst list" where
  "invoked_on i cs = map snd [c \<leftarrow> cs. fst c = i]"

text \<open>The local before hook of the query's model returns \<open>false\<close> for the model.\<close>

definition local_veto :: "env \<Rightarrow> query \<Rightarrow> string \<Rightarrow> inst \<Rightarrow> bool" where
  "local_veto E q on m =
     (case localMutationHook E (entity q) on of
        None \<Rightarrow> False
      | Some f \<Rightarrow> f m (entity q) = ReturnsFalse)"

text \<open>The first model of a batch that its local before hook lets through.\<close>

definition first_reaching :: "env \<Rightarrow> query \<Rightarrow> string \<Rightarrow> inst list \<Rightarrow> inst option" where
  "first_reaching E q on ms = List.find (\<lambda>m. \<not> local_veto E q on m) ms"

text \<open>The store after the before hooks of one model.\<close>

definition hook_step :: "env \<Rightarrow> query \<Rightarrow> string \<Rightarrow> inst \<Rightarrow> world \<Rightarrow> world" where
  "hook_step E q on m w = snd (executeBeforeHook E q on m w)"

text \<open>
  The example registry with a local \<open>beforeCreate\<close> hook that returns \<open>false\<close> for the
  record with id 1, the example store with one global \<open>beforeCreate\<close> hook flagged
  \<open>once\<close>, and a batch of two records.
\<close>

definition local_veto_env :: env where
  "local_veto_env =
     demo_env \<lparr> localMutationHook :=
       (\<lambda>e on. if on = ''beforeCreate''
                then Some (\<lambda>m e. if field_of (props m) ''id'' = VNum 1 then ReturnsFalse else ReturnsOther)
                else None) \<rparr>"

definition once_world :: world where
  "once_world = snd (on_hook ''beforeCreate'' (MutationCb (\<lambda>m e. ReturnsOther)) True demo_world)"

definition batch_12 :: "val obj obj" where
  "batch_12 = [(''1'', [(''id'', VNum 1)]), (''2'', [(''id'', VNum 2)])]"

text \<open>A normalized batch for \<open>insertOrUpdate\<close> on the example table: id 1 exists, id 3
  is new; and the first example record renamed.\<close>

definition upsert_batch :: "val obj obj" where
  "upsert_batch =
     [(''1'', [(''id'', VNum 1), (''name'', VStr ''z''), (''$id'', VStr ''1'')]),
      (''3'', [(''id'', VNum 3), (''name'', VStr ''c''), (''$id'', VStr ''3'')])]"

definition renamed_a :: inst where
  "renamed_a = \<lparr> ctor = ''users'', props = [(''$id'', VStr ''1''), (''id'', VNum 1), (''name'', VStr ''z'')] \<rparr>"

section \<open>Properties\<close>

text \<open>Unfolding rules that evaluate the object model on concrete inputs.\<close>

lemmas js_eval = array_index_def string_of_nat.simps digit_val_def obj_keys_def obj_entries_def
  spread_def Let_def key_of_val_def string_of_int_def

lemma set_obj_keys: "set (obj_keys ob) = fst ` set ob"
  by (auto simp: obj_keys_def Let_def)

lemma distinct_obj_keys: "distinct (map fst ob) \<Longrightarrow> distinct (obj_keys ob)"
  by (auto simp: obj_keys_def Let_def)

lemma demo_env_simps:
  "baseEntity demo_env = demo_base" "primaryKey demo_env = demo_pk"
  "instanceOf demo_env = demo_instanceOf" "getModelFromRecord demo_env = demo_modelFromRecord"
  "typeKey demo_env = (\<lambda>e. ''type'')" "typeKeyValue demo_env = demo_typeValue"
  "construct demo_env = simple_construct"
  "getIndexIdFromRecord demo_env = (\<lambda>e. simple_index_id (demo_pk e))"
  "normalize demo_env = simple_normalize"
  "localMutationHook demo_env = (\<lambda>e on. None)" "localRetrieveHook demo_env = (\<lambda>e on. None)"
  "filterWhere demo_env = simple_where" "filterOrderBy demo_env = (\<lambda>q rs. rs)"
  "filterLimit demo_env = (\<lambda>q rs. rs)"
  by (simp_all add: demo_env_def)

lemma set_js_set_aux: "set (fold (\<lambda>v acc. if v \<in> set acc then acc else acc @ [v]) vs acc) = set vs \<union> set acc"
  by (induction vs arbitrary: acc) auto
lemma set_js_set [simp]: "set (js_set vs) = set vs"
  by (simp add: js_set_def set_js_set_aux)

lemma where_q_pk_step:
  assumes "\<not> cancelIdFilter q"
  shows "entity (where_q E (primaryKey E (entity q)) v q) = entity q"
    and "\<not> cancelIdFilter (where_q E (primaryKey E (entity q)) v q)"
    and "joinedIdFilter (where_q E (primaryKey E (entity q)) v q) = joinedIdFilter q"
    and "map_option set (idFilter (where_q E (primaryKey E (entity q)) v q)) =
           Some (case idFilter q of None \<Rightarrow> set (values_of v) | Some s \<Rightarrow> set (values_of v) \<inter> set s)"
  using assms
  by (auto simp: where_q_def isIdfilterable_def setIdFilter_def Let_def split: option.splits)

lemma pk_chain_inv:
  "\<not> cancelIdFilter q \<Longrightarrow>
     entity (pk_chain E vs q) = entity q \<and> \<not> cancelIdFilter (pk_chain E vs q)
     \<and> joinedIdFilter (pk_chain E vs q) = joinedIdFilter q
     \<and> map_option set (idFilter (pk_chain E vs q)) =
         (if vs = [] then map_option set (idFilter q)
          else Some ((\<Inter>v\<in>set vs. set (values_of v)) \<inter> (case idFilter q of None \<Rightarrow> UNIV | Some s \<Rightarrow> set s)))"
proof (induction vs arbitrary: q)
  case Nil
  then show ?case by (simp add: pk_chain_def)
next
  case (Cons v vs)
  let ?q1 = "where_q E (primaryKey E (entity q)) v q"
  have step: "pk_chain E (v # vs) q = pk_chain E vs ?q1" by (simp add: pk_chain_def)
  note s = where_q_pk_step[OF Cons.prems, of E v]
  have ih: "entity (pk_chain E vs ?q1) = entity ?q1 \<and> \<not> cancelIdFilter (pk_chain E vs ?q1)
     \<and> joinedIdFilter (pk_chain E vs ?q1) = joinedIdFilter ?q1
     \<and> map_option set (idFilter (pk_chain E vs ?q1)) =
         (if vs = [] then map_option set (idFilter ?q1)
          else Some ((\<Inter>v\<in>set vs. set (values_of v)) \<inter> (case idFilter ?q1 of None \<Rightarrow> UNIV | Some s \<Rightarrow> set s)))"
    using Cons.IH[OF s(2)] .
  obtain s1 where s1: "idFilter ?q1 = Some s1"
     "set s1 = (case idFilter q of None \<Rightarrow> set (values_of v) | Some s \<Rightarrow> set (values_of v) \<inter> set s)"
    using s(4) by (cases "idFilter ?q1") auto
  show ?case
    unfolding step using ih s(1,3) s1
    by (auto split: option.splits)
qed

lemma stages_empty:
  assumes "no_retrieve_hooks E w q"
    and "filterWhere E q [] = []" and "filterOrderBy E q [] = []" and "filterLimit E q [] = []"
  shows "stages E q [] w = ([], w)"
  using assms
  by (simp add: stages_def no_retrieve_hooks_def executeRetrieveHook_def
      executeGlobalRetrieveHook_def executeLocalRetrieveHook_def)


text \<open>
  C5.  After a non-empty chain of conjunctive primary-key constraints on a fresh query,
  \<open>idFilter\<close> is set and its members are the intersection of the given value sets.
  When that intersection is empty, \<open>records()\<close> looks up no key of the table, and
  \<open>get()\<close> returns the empty sequence when no retrieve hook is registered and the filter
  stages map the empty sequence to itself.
\<close>

theorem idFilter_is_intersection:
  assumes "vs \<noteq> []"
  shows "(\<exists>s. idFilter (pk_chain E vs (newQuery E e)) = Some s
              \<and> set s = (\<Inter>v\<in>set vs. set (values_of v)))
       \<and> ((\<Inter>v\<in>set vs. set (values_of v)) = {} \<longrightarrow>
            snd (records E w (pk_chain E vs (newQuery E e))) = []
            \<and> (no_retrieve_hooks E w (pk_chain E vs (newQuery E e))
                 \<and> (\<forall>q. filterWhere E q [] = [] \<and> filterOrderBy E q [] = [] \<and> filterLimit E q [] = [])
               \<longrightarrow> get E w (pk_chain E vs (newQuery E e)) = ([], w)))"
proof -
  let ?Q = "pk_chain E vs (newQuery E e)"
  have nc: "\<not> cancelIdFilter (newQuery E e)" by (simp add: newQuery_def)
  have inv: "\<not> cancelIdFilter ?Q" "joinedIdFilter ?Q = None"
    "map_option set (idFilter ?Q) = Some (\<Inter>v\<in>set vs. set (values_of v))"
    using pk_chain_inv[OF nc, of E vs] assms by (simp_all add: newQuery_def)
  then obtain s where s: "idFilter ?Q = Some s" "set s = (\<Inter>v\<in>set vs. set (values_of v))"
    by (cases "idFilter ?Q") auto
  have fin: "finalizeIdFilter E ?Q = ?Q"
    using inv(1) s(1) by (simp add: finalizeIdFilter_def)
  have rec: "(\<Inter>v\<in>set vs. set (values_of v)) = {} \<Longrightarrow> records E w ?Q = (?Q, [])"
    using s inv(2) by (simp add: records_def fin getIdsToLookup_def)
  have "(\<Inter>v\<in>set vs. set (values_of v)) = {} \<Longrightarrow> no_retrieve_hooks E w ?Q \<Longrightarrow>
        (\<forall>q. filterWhere E q [] = [] \<and> filterOrderBy E q [] = [] \<and> filterLimit E q [] = [])
        \<Longrightarrow> get E w ?Q = ([], w)"
    using rec by (simp add: get_def select_def stages_empty)
  then show ?thesis using s rec by auto
qed

theorem idFilter_is_intersection_witness:
  "get demo_env demo_world (whereId demo_env (VNum 2) (whereId demo_env (VNum 1) (newQuery demo_env ''users'')))
     = ([], demo_world)
   \<and> idFilter (whereIdIn demo_env [VNum 1, VNum 2] (whereIdIn demo_env [VNum 1, VNum 2, VNum 3] (newQuery demo_env ''users'')))
     = Some [VNum 1, VNum 2]"
proof -
  have ch: "whereId demo_env (VNum 2) (whereId demo_env (VNum 1) (newQuery demo_env ''users''))
      = pk_chain demo_env [WScalar (VNum 1), WScalar (VNum 2)] (newQuery demo_env ''users'')"
    by (simp add: pk_chain_def whereId_def where_q_def Let_def)
  have h1: "[WScalar (VNum 1), WScalar (VNum 2)] \<noteq> []" by simp
  have h2: "(\<Inter>v\<in>set [WScalar (VNum 1), WScalar (VNum 2)]. set (values_of v)) = {}"
    by (simp add: values_of_def)
  have h3: "no_retrieve_hooks demo_env demo_world
       (pk_chain demo_env [WScalar (VNum 1), WScalar (VNum 2)] (newQuery demo_env ''users''))"
    by (simp add: no_retrieve_hooks_def demo_env_def demo_world_def)
  have h4: "\<forall>q. filterWhere demo_env q [] = [] \<and> filterOrderBy demo_env q [] = [] \<and> filterLimit demo_env q [] = []"
    by (simp add: demo_env_def simple_where_def)
  have g: "get demo_env demo_world
      (pk_chain demo_env [WScalar (VNum 1), WScalar (VNum 2)] (newQuery demo_env ''users'')) = ([], demo_world)"
    using idFilter_is_intersection[OF h1, of demo_env "''users''" demo_world] h2 h3 h4 by blast
  have i: "idFilter (whereIdIn demo_env [VNum 1, VNum 2] (whereIdIn demo_env [VNum 1, VNum 2, VNum 3] (newQuery demo_env ''users'')))
     = Some [VNum 1, VNum 2]"
    by (simp add: whereIdIn_def where_q_def Let_def isIdfilterable_def setIdFilter_def newQuery_def
        js_set_def values_of_def)
  show ?thesis using g i ch by simp
qed

text \<open>
  C6.  The ids to look up are the members of \<open>idFilter\<close> that are also in
  \<open>joinedIdFilter\<close> when both are set (their intersection, never their union), the one
  that is set when only one is, and every key of the table when neither is.
\<close>

theorem lookup_keys_resolution:
  "(idFilter q = Some a \<and> joinedIdFilter q = Some b \<longrightarrow>
      getIdsToLookup E w q = [x \<leftarrow> a. x \<in> set b] \<and> set (getIdsToLookup E w q) = set a \<inter> set b)
   \<and> (idFilter q = Some a \<and> joinedIdFilter q = None \<longrightarrow> getIdsToLookup E w q = a)
   \<and> (idFilter q = None \<and> joinedIdFilter q = Some b \<longrightarrow> getIdsToLookup E w q = b)
   \<and> (idFilter q = None \<and> joinedIdFilter q = None \<longrightarrow>
        getIdsToLookup E w q = map VStr (obj_keys (table E w q))
        \<and> set (getIdsToLookup E w q) = VStr ` fst ` set (table E w q))"
  by (auto simp: getIdsToLookup_def set_obj_keys)

theorem lookup_keys_resolution_witness:
  "getIdsToLookup demo_env demo_world
     ((newQuery demo_env ''users'') \<lparr> idFilter := Some [VNum 1, VNum 2], joinedIdFilter := Some [VNum 2, VNum 3] \<rparr>)
     = [VNum 2]
   \<and> getIdsToLookup demo_env demo_world ((newQuery demo_env ''users'') \<lparr> idFilter := Some [VNum 1] \<rparr>) = [VNum 1]
   \<and> getIdsToLookup demo_env demo_world ((newQuery demo_env ''users'') \<lparr> joinedIdFilter := Some [VNum 3] \<rparr>) = [VNum 3]
   \<and> set (getIdsToLookup demo_env demo_world (newQuery demo_env ''users'')) = {VStr ''1'', VStr ''2''}"
  using
    lookup_keys_resolution [where E = demo_env and w = demo_world and a = "[VNum 1, VNum 2]" and b = "[VNum 2, VNum 3]"
      and q = "(newQuery demo_env ''users'') \<lparr> idFilter := Some [VNum 1, VNum 2], joinedIdFilter := Some [VNum 2, VNum 3] \<rparr>"]
    lookup_keys_resolution [where E = demo_env and w = demo_world and a = "[VNum 1]"
      and q = "(newQuery demo_env ''users'') \<lparr> idFilter := Some [VNum 1] \<rparr>"]
    lookup_keys_resolution [where E = demo_env and w = demo_world and b = "[VNum 3]"
      and q = "(newQuery demo_env ''users'') \<lparr> joinedIdFilter := Some [VNum 3] \<rparr>"]
    lookup_keys_resolution [where E = demo_env and w = demo_world and q = "newQuery demo_env ''users''"]
  by (simp add: newQuery_def table_def demo_env_simps demo_world_def demo_base_def js_eval)






lemma full_scan_upd [simp]:
  "full_scan E w (q \<lparr> idFilter := a, wheres := b \<rparr>) = full_scan E w q"
  by (simp add: full_scan_def table_def)



lemmas hook_eval = executeBeforeHookOnModels_def before_step_def executeBeforeHook_def
  executeGlobalBeforeMutationHooks_def as_mutation_def log_calls_def cleanGlobalHooksOn_def
  executeAfterHookOnModels_def executeAfterHook_def executeGlobalAfterMutationHooks_def on_hook_def

lemmas persist_eval = persist_def persist_step_def persistMany_def getPersistMethod_def
  insertMany_def createMany_def hydrateMany_def hydrate_def set_table_def table_def map_instances_def
  simple_normalize_def simple_index_id_def simple_construct_def field_of_def newQuery_def
  demo_pk_def demo_base_def demo_modelFromRecord_def no_options_def

lemma vw: "hooks veto_then_pass_world =
    [(''beforeCreate'', [\<lparr> hid = 1, callback = MutationCb (\<lambda>m e. ReturnsFalse), once = False \<rparr>,
                         \<lparr> hid = 2, callback = MutationCb (\<lambda>m e. ReturnsOther), once = False \<rparr>])]"
  "tables veto_then_pass_world = tables demo_world" "calls veto_then_pass_world = []"
  by (simp_all add: veto_then_pass_world_def on_hook_def demo_world_def Let_def)

text \<open>
  C3.  The program on two global \<open>beforeCreate\<close> hooks, the first returning \<open>false\<close>
  and the second not, and an insert of \<open>{id: 3, name: "c"}\<close>: the second hook is called
  after the first has returned \<open>false\<close>, and the record is inserted all the same.
\<close>

theorem veto_of_first_hook_is_lost:
  "(case insert_q demo_env (newQuery demo_env ''users'') (DRecord record_c) no_options veto_then_pass_world of
      (res, w') \<Rightarrow>
        res = [(''users'', [user_c])] \<and> calls w' = [(1, user_c), (2, user_c)]
        \<and> map_of (tables w' ''users'') ''3'' = Some user_c)"
  by (simp add: insert_q_def persist_eval hook_eval demo_env_simps vw js_eval record_c_def user_c_def
      demo_world_def user_a_def user_b_def)

text \<open>
  C9, as stated, fails: with a closure as data, a scalar condition and a composite
  primary key, \<open>update\<close> goes to \<open>updateById\<close> and raises nothing.
\<close>

theorem closure_scalar_composite_does_not_raise:
  "update_q composite_env (newQuery composite_env ''users'') (UClosure id) (CScalar (VNum 7))
      no_options demo_world
   = Inr (Item None, demo_world)"
  by (simp add: update_q_def falsy_def updateById_def table_def newQuery_def composite_env_def
      demo_env_simps demo_env_def demo_base_def demo_world_def js_eval)

text \<open>
  C9, amended.  \<open>update\<close> with a closure as data and a missing or falsy condition, and
  \<open>update\<close> with a plain record as data and a non-falsy scalar condition on a model
  with a composite primary key, raise an error, and the store is the one the call was
  given.
\<close>

theorem update_raises_before_mutation:
  "(falsy c \<longrightarrow> update_q E q (UClosure f) c options w = Inl (ClosureWithoutCondition, w))
   \<and> (\<not> falsy (CScalar v) \<and> primaryKey E (entity q) = PKComposite fs \<longrightarrow>
        update_q E q (URecord r) (CScalar v) options w = Inl (ScalarConditionOnCompositeKey, w))"
  by (auto simp: update_q_def split: ucondition.splits)

theorem update_raises_before_mutation_witness:
  "update_q demo_env (newQuery demo_env ''users'') (UClosure id) CNone no_options demo_world
     = Inl (ClosureWithoutCondition, demo_world)
   \<and> update_q composite_env (newQuery composite_env ''users'') (URecord [(''name'', VStr ''z'')])
       (CScalar (VNum 1)) no_options demo_world
     = Inl (ScalarConditionOnCompositeKey, demo_world)"
  using update_raises_before_mutation [where c = CNone and E = demo_env and q = "newQuery demo_env ''users''"
      and f = id and options = no_options and w = demo_world]
    update_raises_before_mutation [where v = "VNum 1" and E = composite_env
      and q = "newQuery composite_env ''users''" and fs = "[''a'', ''b'']"
      and r = "[(''name'', VStr ''z'')]" and options = no_options and w = demo_world]
  by (simp add: falsy_def composite_env_def)

lemmas update_eval = update_q_def falsy_def updateById_def processUpdate_def merge_instance_def
  writeback_def commitUpdate_run_def commitUpdate_def updateIndexes_def reindex_step_def

text \<open>
  C2.  The program on the example table and \<open>update({id: 5}, 1)\<close>: the record is stored
  under the new key \<open>5\<close>, the entry under the old key \<open>1\<close> is still in the table, and a
  \<open>get()\<close> right after returns both.
\<close>

theorem old_key_survives_rekeying:
  "(case update_q demo_env (newQuery demo_env ''users'') (URecord [(''id'', VNum 5)]) (CScalar (VNum 1))
          no_options demo_world of
      Inl err \<Rightarrow> False
    | Inr (res, w') \<Rightarrow>
        res = Item None
        \<and> tables w' ''users'' = [(''1'', user_a), (''2'', user_b), (''5'', moved_a)]
        \<and> fst (get demo_env w' (newQuery demo_env ''users'')) = [user_a, user_b, moved_a])"
  by (simp add: update_eval persist_eval hook_eval demo_env_simps js_eval 
      demo_world_def user_a_def user_b_def moved_a_def
      get_def select_def stages_def records_def finalizeIdFilter_def getIdsToLookup_def
      executeRetrieveHook_def executeGlobalRetrieveHook_def executeLocalRetrieveHook_def simple_where_def
      demo_instanceOf_def)

lemma map_of_graph:
  "map_of (map (\<lambda>k. (k, f k)) ks) k = (if k \<in> set ks then Some (f k) else None)"
  by (induction ks) auto

lemma key_iff: "k \<in> fst ` set ob \<longleftrightarrow> map_of ob k \<noteq> None"
  by (simp add: map_of_eq_None_iff)

lemma map_of_obj_entries [simp]: "map_of (obj_entries ob) = map_of ob"
proof
  fix k
  show "map_of (obj_entries ob) k = map_of ob k"
    unfolding obj_entries_def map_of_graph
    by (cases "map_of ob k") (simp_all add: set_obj_keys key_iff)
qed

lemma map_of_fold_update:
  "map_of (fold (\<lambda>(k, v). AList.update k v) es acc) = map_of acc ++ map_of (rev es)"
proof (induction es arbitrary: acc)
  case Nil
  show ?case by simp
next
  case (Cons e es)
  obtain k v where e: "e = (k, v)" by (cases e)
  show ?case
    by (simp add: e Cons.IH update_conv' map_add_upd_left map_add_def fun_eq_iff split: option.splits)
qed

lemma map_of_rev_obj_entries: "map_of (rev (obj_entries ob)) = map_of ob"
proof -
  have "map_of (rev (map (\<lambda>k. (k, f k)) ks)) k = (if k \<in> set ks then Some (f k) else None)" for f :: "string \<Rightarrow> 'a" and ks k
    by (induction ks) (auto simp: map_add_def split: option.splits)
  then have "map_of (rev (obj_entries ob)) k = map_of ob k" for k
    unfolding obj_entries_def rev_map[symmetric]
    by (cases "map_of ob k") (simp_all add: set_obj_keys key_iff rev_map)
  then show ?thesis by (simp add: fun_eq_iff)
qed

lemma map_of_spread: "map_of (spread a b) = map_of a ++ map_of b"
  by (simp add: spread_def map_of_fold_update map_of_rev_obj_entries)


lemma tables_clean [simp]: "tables (cleanGlobalHooksOn on w) = tables w"
  by (simp add: cleanGlobalHooksOn_def split: option.splits)

lemma tables_log [simp]: "tables (log_calls hs m w) = tables w"
  by (simp add: log_calls_def)

lemma tables_global_before [simp]:
  "tables (snd (executeGlobalBeforeMutationHooks q on m w)) = tables w"
  by (simp add: executeGlobalBeforeMutationHooks_def split: option.splits prod.splits)

lemma tables_before_hook [simp]: "tables (snd (executeBeforeHook E q on m w)) = tables w"
  by (simp add: executeBeforeHook_def)

lemma tables_after_hook [simp]: "tables (executeAfterHook E q on m w) = tables w"
  by (simp add: executeAfterHook_def executeGlobalAfterMutationHooks_def split: option.splits)

lemma tables_before_step [simp]:
  "tables (snd (before_step E q on models i (ms, w))) = tables w"
proof (cases "map_of models i")
  case None
  then show ?thesis by (simp add: before_step_def)
next
  case (Some m)
  obtain r w' where r: "executeBeforeHook E q on m w = (r, w')" by (cases "executeBeforeHook E q on m w")
  have "tables w' = tables w" using tables_before_hook[of E q on m w] r by simp
  then show ?thesis by (simp add: before_step_def Some r)
qed

lemma tables_fold_before:
  "tables (snd (fold (before_step E q on models) ks (ms, w))) = tables w"
proof (induction ks arbitrary: ms w)
  case Nil
  show ?case by simp
next
  case (Cons k ks)
  obtain ms1 w1 where s: "before_step E q on models k (ms, w) = (ms1, w1)"
    by (cases "before_step E q on models k (ms, w)")
  have "tables w1 = tables w" using tables_before_step[of E q on models k ms w] s by simp
  then show ?case using Cons.IH[of ms1 w1] by (simp add: s)
qed

lemma tables_before_models [simp]:
  "tables (snd (executeBeforeHookOnModels E q on models w)) = tables w"
  by (simp add: executeBeforeHookOnModels_def tables_fold_before)

lemma tables_after_models [simp]:
  "tables (executeAfterHookOnModels E q on models w) = tables w"
proof -
  have "tables (fold (\<lambda>i w. case map_of models i of None \<Rightarrow> w | Some m \<Rightarrow> executeAfterHook E q on m w) ks w)
        = tables w" for ks
    by (induction ks arbitrary: w) (auto split: option.splits)
  then show ?thesis by (simp add: executeAfterHookOnModels_def)
qed

lemma table_set_table [simp]: "table E (set_table E q t w) q = t"
  by (simp add: table_def set_table_def)

lemma table_cong: "tables w' = tables w \<Longrightarrow> table E w' q = table E w q"
  by (simp add: table_def)

text \<open>
  C8.  \<open>emptyState\<close> empties the whole table on a base-entity query, and on a
  derived-entity query removes the rows whose model class is the derived model or
  extends it and leaves every other row as it is.  A batch persisted by \<open>create\<close>
  leaves in the table the rows of the emptied table overridden by the new instances that
  no before hook vetoed, and changes no other table.  \<open>create\<close> with an empty
  normalized input still applies \<open>emptyState\<close>.
\<close>

theorem create_empties_then_inserts:
  "(appliedOnBase q \<longrightarrow> emptyState E q t = [])
   \<and> (\<not> appliedOnBase q \<longrightarrow>
        emptyState E q t = [(i, m) \<leftarrow> t. \<not> instanceOf E (ctor m) (entity q)]
        \<and> set (emptyState E q t) = {(i, m). (i, m) \<in> set t \<and> \<not> instanceOf E (ctor m) (entity q)})
   \<and> map_of (table E (snd (createMany E q recs w)) q) =
        map_of (emptyState E q (table E w q))
          ++ map_of (fst (executeBeforeHookOnModels E q ''beforeCreate'' (hydrateMany E q recs) w))
   \<and> (\<forall>b. b \<noteq> baseEntity E (entity q) \<longrightarrow> tables (snd (createMany E q recs w)) b = tables w b)
   \<and> (normalize E q d = [] \<longrightarrow>
        persist E q d Create options w = ([], set_table E q (emptyState E q (table E w q)) w))"
proof -
  obtain ins w1 where b: "executeBeforeHookOnModels E q ''beforeCreate'' (hydrateMany E q recs) w = (ins, w1)"
    by (cases "executeBeforeHookOnModels E q ''beforeCreate'' (hydrateMany E q recs) w")
  have t1: "table E w1 q = table E w q"
    using tables_before_models[of E q "''beforeCreate''" "hydrateMany E q recs" w] b
    by (simp add: table_def)
  have "table E (snd (createMany E q recs w)) q = spread (emptyState E q (table E w q)) ins"
    by (simp add: createMany_def b Let_def t1 table_cong[OF tables_after_models])
  then have c: "map_of (table E (snd (createMany E q recs w)) q) =
        map_of (emptyState E q (table E w q)) ++ map_of ins"
    by (simp add: map_of_spread)
  have e: "\<not> appliedOnBase q \<Longrightarrow>
        set (emptyState E q t) = {(i, m). (i, m) \<in> set t \<and> \<not> instanceOf E (ctor m) (entity q)}"
    by (auto simp: emptyState_def)
  have f: "b \<noteq> baseEntity E (entity q) \<Longrightarrow> tables (snd (createMany E q recs w)) b = tables w b" for b
    using tables_before_models[of E q "''beforeCreate''" "hydrateMany E q recs" w] b
    by (simp add: createMany_def Let_def set_table_def)
  show ?thesis
    using c e f by (simp add: b emptyState_def persist_def Let_def)
qed

theorem create_empties_then_inserts_witness:
  "emptyState demo_env (newQuery demo_env ''adults'') [(''1'', adult_1), (''2'', child_2)] = [(''2'', child_2)]
   \<and> emptyState demo_env (newQuery demo_env ''people'') [(''1'', adult_1), (''2'', child_2)] = []
   \<and> map_of (table demo_env
         (snd (createMany demo_env (newQuery demo_env ''adults'') [(''3'', [(''id'', VNum 3)])] people_world))
         (newQuery demo_env ''adults''))
       = [''2'' \<mapsto> child_2,
          ''3'' \<mapsto> \<lparr> ctor = ''adults'', props = [(''id'', VNum 3), (''type'', VStr ''adult'')] \<rparr>]
   \<and> persist demo_env (newQuery demo_env ''people'') (DArray []) Create no_options people_world
       = ([], people_world \<lparr> tables := (tables people_world) (''people'' := []) \<rparr>)"
proof -
  have a: "\<not> appliedOnBase (newQuery demo_env ''adults'')" "appliedOnBase (newQuery demo_env ''people'')"
    by (simp_all add: newQuery_def demo_env_simps demo_base_def)
  have n: "normalize demo_env (newQuery demo_env ''people'') (DArray []) = []"
    by (simp add: demo_env_simps simple_normalize_def)
  have tp: "table demo_env people_world (newQuery demo_env ''adults'') = [(''1'', adult_1), (''2'', child_2)]"
    "table demo_env people_world (newQuery demo_env ''people'') = [(''1'', adult_1), (''2'', child_2)]"
    by (simp_all add: table_def newQuery_def demo_env_simps demo_base_def people_world_def)
  have e1: "emptyState demo_env (newQuery demo_env ''adults'') [(''1'', adult_1), (''2'', child_2)] = [(''2'', child_2)]"
    using create_empties_then_inserts [where E = demo_env and q = "newQuery demo_env ''adults''"
        and t = "[(''1'', adult_1), (''2'', child_2)]"] a
    by (simp add: newQuery_def demo_env_simps demo_instanceOf_def adult_1_def child_2_def)
  have b: "fst (executeBeforeHookOnModels demo_env (newQuery demo_env ''adults'') ''beforeCreate''
         (hydrateMany demo_env (newQuery demo_env ''adults'') [(''3'', [(''id'', VNum 3)])]) people_world)
       = [(''3'', \<lparr> ctor = ''adults'', props = [(''id'', VNum 3), (''type'', VStr ''adult'')] \<rparr>)]"
    by (simp add: persist_eval hook_eval demo_env_simps js_eval people_world_def demo_typeValue_def)
  have "map_of (table demo_env
         (snd (createMany demo_env (newQuery demo_env ''adults'') [(''3'', [(''id'', VNum 3)])] people_world))
         (newQuery demo_env ''adults''))
       = map_of [(''2'', child_2)] ++
         map_of [(''3'', \<lparr> ctor = ''adults'', props = [(''id'', VNum 3), (''type'', VStr ''adult'')] \<rparr>)]"
    using create_empties_then_inserts [where E = demo_env and q = "newQuery demo_env ''adults''"
        and recs = "[(''3'', [(''id'', VNum 3)])]" and w = people_world]
    by (simp only: b tp e1)
  then have c: "map_of (table demo_env
         (snd (createMany demo_env (newQuery demo_env ''adults'') [(''3'', [(''id'', VNum 3)])] people_world))
         (newQuery demo_env ''adults''))
       = [''2'' \<mapsto> child_2,
          ''3'' \<mapsto> \<lparr> ctor = ''adults'', props = [(''id'', VNum 3), (''type'', VStr ''adult'')] \<rparr>]"
    by (simp add: fun_eq_iff map_add_def)
  have e2: "emptyState demo_env (newQuery demo_env ''people'') [(''1'', adult_1), (''2'', child_2)] = []"
    using a by (simp add: emptyState_def)
  have p: "persist demo_env (newQuery demo_env ''people'') (DArray []) Create no_options people_world
       = ([], people_world \<lparr> tables := (tables people_world) (''people'' := []) \<rparr>)"
    using create_empties_then_inserts [where E = demo_env and q = "newQuery demo_env ''people''"
        and d = "DArray []" and options = no_options and w = people_world] n
    by (simp add: tp e2 set_table_def newQuery_def demo_env_simps demo_base_def)
  show ?thesis using e1 e2 c p by simp
qed

lemma update_fresh_key: "k \<notin> fst ` set al \<Longrightarrow> AList.update k v al = al @ [(k, v)]"
  by (induction al) auto

lemma distinct_obj_entries: "distinct (map fst ob) \<Longrightarrow> distinct (map fst (obj_entries ob))"
  by (simp add: obj_entries_def comp_def distinct_obj_keys)

lemma demo_world_simps:
  "hooks demo_world = []" "calls demo_world = []" "lastHookId demo_world = 0"
  "tables demo_world ''users'' = [(''1'', user_a), (''2'', user_b)]"
  by (simp_all add: demo_world_def)

lemma dw: "hooks veto_then_pass_delete_world =
    [(''beforeDelete'', [\<lparr> hid = 1, callback = MutationCb (\<lambda>m e. ReturnsFalse), once = False \<rparr>,
                         \<lparr> hid = 2, callback = MutationCb (\<lambda>m e. ReturnsOther), once = False \<rparr>])]"
  "tables veto_then_pass_delete_world = tables demo_world" "calls veto_then_pass_delete_world = []"
  by (simp_all add: veto_then_pass_delete_world_def on_hook_def demo_world_def Let_def)

text \<open>
  C7.  The program on the example table with two global \<open>beforeDelete\<close> hooks, the
  first returning \<open>false\<close> and the second not, and \<open>delete(m => m.name === "a")\<close>: both
  hooks are called for the record named \<open>a\<close>, and the record the first hook vetoed is
  returned as deleted and is gone from the table.
\<close>

theorem delete_returns_vetoed_record:
  "(case deleteByCondition demo_env (newQuery demo_env ''users'')
           (\<lambda>m. field_of (props m) ''name'' = VStr ''a'') veto_then_pass_delete_world of
      (deleted, w') \<Rightarrow>
        deleted = [user_a] \<and> tables w' ''users'' = [(''2'', user_b)]
        \<and> calls w' = [(1, user_a), (2, user_a)])"
proof -
  have t: "table demo_env veto_then_pass_delete_world (newQuery demo_env ''users'')
      = [(''1'', user_a), (''2'', user_b)]"
    by (simp add: table_def newQuery_def demo_env_simps demo_base_def dw demo_world_simps)
  show ?thesis
    unfolding deleteByCondition_def t
    by (simp add: delete_step_def js_eval hook_eval demo_env_simps dw set_table_def
        newQuery_def demo_base_def user_a_def user_b_def field_of_def)
qed

lemma some_hooks_prefix: "\<exists>rest. hs = snd (some_hooks hs m e) @ rest"
  by (induction hs) (auto split: prod.splits)

lemma hooks_on_clean:
  "map_of (hooks w) on = Some hs \<Longrightarrow> hooks_on (cleanGlobalHooksOn on w) on = [h \<leftarrow> hs. \<not> once h]"
  by (simp add: hooks_on_def cleanGlobalHooksOn_def update_conv')

lemma hook_step_skip:
  "local_veto E q on m \<or> hooks_on w on = [] \<Longrightarrow> hook_step E q on m w = w"
  by (auto simp: hook_step_def executeBeforeHook_def local_veto_def hooks_on_def
      executeGlobalBeforeMutationHooks_def split: option.splits)

lemma hook_step_run:
  assumes "\<not> local_veto E q on m" "hooks_on w on \<noteq> []"
  shows "\<exists>called rest. hooks_on w on = called @ rest
          \<and> calls (hook_step E q on m w) = calls w @ map (\<lambda>h. (hid h, m)) called
          \<and> hooks_on (hook_step E q on m w) on = [h \<leftarrow> hooks_on w on. \<not> once h]"
proof -
  obtain hs where hs: "map_of (hooks w) on = Some hs" "hs \<noteq> []" "hooks_on w on = hs"
    using assms(2) by (auto simp: hooks_on_def split: option.splits)
  obtain r called where sh: "some_hooks hs m (entity q) = (r, called)"
    by (cases "some_hooks hs m (entity q)")
  obtain rest where pre: "hs = called @ rest"
    using some_hooks_prefix[of hs m "entity q"] sh by auto
  have st: "hook_step E q on m w = cleanGlobalHooksOn on (log_calls called m w)"
    using assms(1) hs
    by (auto simp: hook_step_def executeBeforeHook_def local_veto_def
        executeGlobalBeforeMutationHooks_def sh split: option.splits)
  have h2: "map_of (hooks (log_calls called m w)) on = Some hs"
    using hs by (simp add: log_calls_def)
  have c: "calls (cleanGlobalHooksOn on (log_calls called m w)) = calls w @ map (\<lambda>h. (hid h, m)) called"
    by (simp add: cleanGlobalHooksOn_def log_calls_def split: option.splits)
  show ?thesis
    using pre c hooks_on_clean[OF h2] by (auto simp: st hs(3))
qed

lemma fold_hooks_absent:
  "i \<notin> hid ` set (hooks_on w on) \<Longrightarrow>
     \<exists>X. calls (fold (hook_step E q on) ms w) = calls w @ X \<and> invoked_on i X = []"
proof (induction ms arbitrary: w)
  case Nil
  show ?case by (simp add: invoked_on_def)
next
  case (Cons m ms)
  show ?case
  proof (cases "local_veto E q on m \<or> hooks_on w on = []")
    case True
    then show ?thesis using Cons by (simp add: hook_step_skip)
  next
    case False
    then obtain called rest where r: "hooks_on w on = called @ rest"
      "calls (hook_step E q on m w) = calls w @ map (\<lambda>h. (hid h, m)) called"
      "hooks_on (hook_step E q on m w) on = [h \<leftarrow> hooks_on w on. \<not> once h]"
      using hook_step_run[of E q on m w] by auto
    have "i \<notin> hid ` set (hooks_on (hook_step E q on m w) on)"
      using Cons.prems by (auto simp: r(3))
    then obtain X where X: "calls (fold (hook_step E q on) ms (hook_step E q on m w))
        = calls (hook_step E q on m w) @ X" "invoked_on i X = []"
      using Cons.IH by blast
    have "invoked_on i (map (\<lambda>h. (hid h, m)) called) = []"
      using Cons.prems r(1) by (auto simp: invoked_on_def filter_empty_conv)
    then have "invoked_on i (map (\<lambda>h. (hid h, m)) called @ X) = []"
      using X(2) by (simp add: invoked_on_def)
    then show ?thesis using X(1) r(2) by auto
  qed
qed

lemma fold_hooks_pruned:
  "\<forall>g \<in> set (hooks_on w on). \<not> once g \<Longrightarrow>
     \<forall>g \<in> set (hooks_on (fold (hook_step E q on) ms w) on). \<not> once g"
proof (induction ms arbitrary: w)
  case Nil
  then show ?case by simp
next
  case (Cons m ms)
  show ?case
  proof (cases "local_veto E q on m \<or> hooks_on w on = []")
    case True
    then show ?thesis using Cons by (simp add: hook_step_skip)
  next
    case False
    then have "hooks_on (hook_step E q on m w) on = [h \<leftarrow> hooks_on w on. \<not> once h]"
      using hook_step_run[of E q on m w] by auto
    then have "\<forall>g \<in> set (hooks_on (hook_step E q on m w) on). \<not> once g" by simp
    then show ?thesis using Cons.IH by simp
  qed
qed

lemma at_most_one_by_key:
  "distinct (map f xs) \<Longrightarrow> [x \<leftarrow> xs. f x = a] = [] \<or> (\<exists>y. [x \<leftarrow> xs. f x = a] = [y])"
proof (induction xs)
  case Nil
  show ?case by simp
next
  case (Cons x xs)
  show ?case
  proof (cases "f x = a")
    case True
    then have "a \<notin> f ` set xs" using Cons.prems by auto
    then have "[y \<leftarrow> xs. f y = a] = []" by (auto simp: filter_empty_conv)
    then show ?thesis using True by simp
  next
    case False
    then show ?thesis using Cons by simp
  qed
qed

lemma fold_hooks_once:
  assumes "distinct (map hid (hooks_on w on))" "h \<in> set (hooks_on w on)" "once h"
  shows "\<exists>X. calls (fold (hook_step E q on) ms w) = calls w @ X
          \<and> (invoked_on (hid h) X = []
              \<or> (\<exists>m. invoked_on (hid h) X = [m] \<and> first_reaching E q on ms = Some m))
          \<and> (first_reaching E q on ms \<noteq> None \<longrightarrow>
               (\<forall>g \<in> set (hooks_on (fold (hook_step E q on) ms w) on). \<not> once g))"
  using assms
proof (induction ms arbitrary: w)
  case Nil
  show ?case by (simp add: invoked_on_def first_reaching_def)
next
  case (Cons m ms)
  show ?case
  proof (cases "local_veto E q on m")
    case True
    then have "hook_step E q on m w = w" by (simp add: hook_step_skip)
    then show ?thesis
      using Cons.IH[OF Cons.prems] True by (simp add: first_reaching_def)
  next
    case False
    have ne: "hooks_on w on \<noteq> []" using Cons.prems(2) by auto
    let ?w1 = "hook_step E q on m w"
    obtain called rest where r: "hooks_on w on = called @ rest"
      "calls ?w1 = calls w @ map (\<lambda>g. (hid g, m)) called"
      "hooks_on ?w1 on = [g \<leftarrow> hooks_on w on. \<not> once g]"
      using hook_step_run[OF False ne] by auto
    have absent: "hid h \<notin> hid ` set (hooks_on ?w1 on)"
    proof
      assume "hid h \<in> hid ` set (hooks_on ?w1 on)"
      then obtain g where g: "g \<in> set (hooks_on w on)" "\<not> once g" "hid g = hid h"
        by (auto simp: r(3))
      then have "g = h"
        using Cons.prems(1,2) by (meson distinct_map inj_onD)
      then show False using g(2) Cons.prems(3) by simp
    qed
    obtain X where X: "calls (fold (hook_step E q on) ms ?w1) = calls ?w1 @ X"
      "invoked_on (hid h) X = []"
      using fold_hooks_absent[OF absent] by blast
    have pr: "\<forall>g \<in> set (hooks_on (fold (hook_step E q on) ms ?w1) on). \<not> once g"
      using fold_hooks_pruned[of ?w1 on] by (simp add: r(3))
    have dc: "distinct (map hid called)" using Cons.prems(1) by (simp add: r(1))
    have one: "[g \<leftarrow> called. hid g = hid h] = [] \<or> (\<exists>y. [g \<leftarrow> called. hid g = hid h] = [y])"
      using at_most_one_by_key[OF dc] .
    have inv1: "invoked_on (hid h) (map (\<lambda>g. (hid g, m)) called) = map (\<lambda>g. m) [g \<leftarrow> called. hid g = hid h]"
      by (simp add: invoked_on_def filter_map comp_def)
    have inv: "invoked_on (hid h) (map (\<lambda>g. (hid g, m)) called @ X) = []
             \<or> invoked_on (hid h) (map (\<lambda>g. (hid g, m)) called @ X) = [m]"
    proof -
      have "invoked_on (hid h) (map (\<lambda>g. (hid g, m)) called @ X)
            = invoked_on (hid h) (map (\<lambda>g. (hid g, m)) called)"
        using X(2) by (simp add: invoked_on_def)
      then show ?thesis using one inv1 by auto
    qed
    have fr: "first_reaching E q on (m # ms) = Some m"
      using False by (simp add: first_reaching_def)
    have cs: "calls (fold (hook_step E q on) (m # ms) w) = calls w @ (map (\<lambda>g. (hid g, m)) called @ X)"
      using X(1) r(2) by simp
    show ?thesis
      using inv fr cs pr by (intro exI[of _ "map (\<lambda>g. (hid g, m)) called @ X"]) auto
  qed
qed


lemma snd_fold_before_step:
  "\<forall>k \<in> set ks. map_of models k \<noteq> None \<Longrightarrow>
     snd (fold (before_step E q on models) ks (ms, w))
       = fold (hook_step E q on) (map (\<lambda>k. the (map_of models k)) ks) w"
proof (induction ks arbitrary: ms w)
  case Nil
  show ?case by simp
next
  case (Cons k ks)
  obtain m where m: "map_of models k = Some m" using Cons.prems by auto
  obtain r w1 where h: "executeBeforeHook E q on m w = (r, w1)"
    by (cases "executeBeforeHook E q on m w")
  have "\<exists>ms1. before_step E q on models k (ms, w) = (ms1, hook_step E q on m w)"
    by (simp add: before_step_def m h hook_step_def)
  then obtain ms1 where s: "before_step E q on models k (ms, w) = (ms1, hook_step E q on m w)" ..
  show ?case using Cons.IH[of ms1 "hook_step E q on m w"] Cons.prems by (simp add: s m)
qed

lemma before_models_as_fold:
  "snd (executeBeforeHookOnModels E q on models w)
     = fold (hook_step E q on) (map snd (obj_entries models)) w"
proof -
  have "\<forall>k \<in> set (obj_keys models). map_of models k \<noteq> None"
    by (simp add: set_obj_keys key_iff)
  then show ?thesis
    by (simp add: executeBeforeHookOnModels_def snd_fold_before_step obj_entries_def comp_def)
qed

text \<open>
  C10, as stated, fails: with a local \<open>beforeCreate\<close> hook that vetoes the first model
  of a batch of two, the global hooks are not run for the first model, and the global
  hook flagged \<open>once\<close> is called for the second model.
\<close>

theorem once_hook_called_for_second_model:
  "map_instances (hydrateMany local_veto_env (newQuery local_veto_env ''users'') batch_12)
     = [\<lparr> ctor = ''users'', props = [(''id'', VNum 1)] \<rparr>, \<lparr> ctor = ''users'', props = [(''id'', VNum 2)] \<rparr>]
   \<and> hooks_on once_world ''beforeCreate'' = [\<lparr> hid = 1, callback = MutationCb (\<lambda>m e. ReturnsOther), once = True \<rparr>]
   \<and> calls (snd (insertMany local_veto_env (newQuery local_veto_env ''users'') batch_12 once_world))
     = [(1, \<lparr> ctor = ''users'', props = [(''id'', VNum 2)] \<rparr>)]"
  by (simp add: persist_eval hook_eval js_eval demo_env_simps local_veto_env_def once_world_def
      batch_12_def demo_world_simps hooks_on_def)

text \<open>
  C10, amended.  In a batch of before-mutation hooks, a global hook flagged \<open>once\<close>
  (hook ids being distinct) is called for at most one model: the first model of the
  batch that the local hook does not veto.  Once that model has been processed no hook
  flagged \<open>once\<close> is left for the event.
\<close>

theorem once_hook_called_for_one_model:
  assumes "distinct (map hid (hooks_on w on))" and "h \<in> set (hooks_on w on)" and "once h"
  shows "\<exists>X. calls (snd (executeBeforeHookOnModels E q on models w)) = calls w @ X
          \<and> (invoked_on (hid h) X = []
              \<or> (\<exists>m. invoked_on (hid h) X = [m]
                      \<and> first_reaching E q on (map snd (obj_entries models)) = Some m))
          \<and> (first_reaching E q on (map snd (obj_entries models)) \<noteq> None \<longrightarrow>
               (\<forall>g \<in> set (hooks_on (snd (executeBeforeHookOnModels E q on models w)) on). \<not> once g))"
  unfolding before_models_as_fold using fold_hooks_once[OF assms] .

theorem once_hook_called_for_one_model_witness:
  "invoked_on 1
     (calls (snd (executeBeforeHookOnModels demo_env (newQuery demo_env ''users'') ''beforeCreate''
                    (hydrateMany demo_env (newQuery demo_env ''users'') batch_12) once_world)))
     = [\<lparr> ctor = ''users'', props = [(''id'', VNum 1)] \<rparr>]
   \<and> hooks_on (snd (executeBeforeHookOnModels demo_env (newQuery demo_env ''users'') ''beforeCreate''
                    (hydrateMany demo_env (newQuery demo_env ''users'') batch_12) once_world))
        ''beforeCreate'' = []"
proof -
  let ?h = "\<lparr> hid = 1, callback = MutationCb (\<lambda>m e. ReturnsOther), once = True \<rparr>"
  have ho: "hooks_on once_world ''beforeCreate'' = [?h]"
    by (simp add: hooks_on_def once_world_def on_hook_def demo_world_simps)
  have h1: "distinct (map hid (hooks_on once_world ''beforeCreate''))" by (simp add: ho)
  have h2: "?h \<in> set (hooks_on once_world ''beforeCreate'')" by (simp add: ho)
  have h3: "once ?h" by simp
  show ?thesis
    using once_hook_called_for_one_model[OF h1 h2 h3, of demo_env "newQuery demo_env ''users''"
        "hydrateMany demo_env (newQuery demo_env ''users'') batch_12"]
    by (simp add: persist_eval hook_eval js_eval demo_env_simps once_world_def
        batch_12_def demo_world_simps hooks_on_def invoked_on_def)
qed

lemma length_obj_keys [simp]: "length (obj_keys ob) = length ob"
proof -
  have "length [k \<leftarrow> map fst ob. array_index k \<noteq> None] + length [k \<leftarrow> map fst ob. array_index k = None]
        = length (map fst ob)"
    using sum_length_filter_compl[of "\<lambda>k. array_index k \<noteq> None" "map fst ob"] by simp
  then show ?thesis by (simp add: obj_keys_def Let_def)
qed

lemma length_obj_entries [simp]: "length (obj_entries ob) = length ob"
  by (simp add: obj_entries_def)

lemma length_map_instances [simp]: "length (map_instances ob) = length ob"
  by (simp add: map_instances_def)

lemma fst_obj_entries [simp]: "map fst (obj_entries ob) = obj_keys ob"
  by (simp add: obj_entries_def comp_def)

lemma set_obj_entries: "distinct (map fst ob) \<Longrightarrow> set (obj_entries ob) = set ob"
proof (intro set_eqI iffI)
  fix e assume d: "distinct (map fst ob)" and "e \<in> set (obj_entries ob)"
  then obtain k where k: "k \<in> fst ` set ob" "e = (k, the (map_of ob k))"
    by (auto simp: obj_entries_def set_obj_keys)
  then obtain v where "map_of ob k = Some v" by (auto simp: key_iff)
  then show "e \<in> set ob" using k by (auto dest: map_of_SomeD)
next
  fix e assume d: "distinct (map fst ob)" and e: "e \<in> set ob"
  then have "map_of ob (fst e) = Some (snd e)" by (cases e) simp
  moreover have "fst e \<in> set (obj_keys ob)" using e by (simp add: set_obj_keys)
  ultimately show "e \<in> set (obj_entries ob)"
    by (force simp: obj_entries_def)
qed

lemma length_filter_obj_entries:
  assumes "distinct (map fst ob)"
  shows "length (filter P (obj_entries ob)) = length (filter P ob)"
proof -
  have d1: "distinct (obj_entries ob)"
    using distinct_obj_entries[OF assms] by (metis distinct_map)
  have d2: "distinct ob" using assms by (metis distinct_map)
  have s: "set (filter P (obj_entries ob)) = set (filter P ob)"
    by (simp add: set_obj_entries[OF assms])
  have "length (filter P (obj_entries ob)) = card (set (filter P (obj_entries ob)))"
    using d1 by (simp only: distinct_card[OF distinct_filter])
  also have "\<dots> = card (set (filter P ob))" by (simp only: s)
  also have "\<dots> = length (filter P ob)"
    using d2 by (simp only: distinct_card[OF distinct_filter])
  finally show ?thesis .
qed

lemma fold_collect:
  assumes "distinct (map fst es)" "fst ` set es \<inter> fst ` set acc = {}"
  shows "fold (\<lambda>e acc. case F e of None \<Rightarrow> acc | Some v \<Rightarrow> AList.update (fst e) v acc) es acc
         = acc @ List.map_filter (\<lambda>e. map_option (Pair (fst e)) (F e)) es"
  using assms
proof (induction es arbitrary: acc)
  case Nil
  show ?case by simp
next
  case (Cons e es)
  have d: "distinct (map fst es)" and ne: "fst e \<notin> fst ` set es" and fr: "fst e \<notin> fst ` set acc"
    and dj: "fst ` set es \<inter> fst ` set acc = {}"
    using Cons.prems by auto
  show ?case
  proof (cases "F e")
    case None
    then show ?thesis using Cons.IH[OF d dj] by simp
  next
    case (Some v)
    have dj': "fst ` set es \<inter> fst ` set (acc @ [(fst e, v)]) = {}" using dj ne by auto
    show ?thesis
      using Cons.IH[OF d dj'] by (simp add: Some update_fresh_key[OF fr])
  qed
qed

lemma map_filter_keys:
  "map fst (List.map_filter (\<lambda>e. map_option (Pair (fst e)) (F e)) es) = map fst [e \<leftarrow> es. F e \<noteq> None]"
  by (induction es) (auto split: option.splits)

lemma collect_props:
  assumes "distinct (map fst es)"
  shows "distinct (map fst (List.map_filter (\<lambda>e. map_option (Pair (fst e)) (F e)) es))"
    and "length (List.map_filter (\<lambda>e. map_option (Pair (fst e)) (F e)) es) = length [e \<leftarrow> es. F e \<noteq> None]"
proof -
  show "distinct (map fst (List.map_filter (\<lambda>e. map_option (Pair (fst e)) (F e)) es))"
    unfolding map_filter_keys using assms by (simp add: distinct_map_filter)
  have "length (map fst (List.map_filter (\<lambda>e. map_option (Pair (fst e)) (F e)) es))
        = length (map fst [e \<leftarrow> es. F e \<noteq> None])"
    by (simp only: map_filter_keys)
  then show "length (List.map_filter (\<lambda>e. map_option (Pair (fst e)) (F e)) es) = length [e \<leftarrow> es. F e \<noteq> None]"
    by simp
qed


lemma map_filter_select:
  "List.map_filter (\<lambda>e. map_option (Pair (fst e)) (if P e then Some (snd e) else None)) es = filter P es"
  by (induction es) auto

lemma toBeUpdated_filter:
  assumes "distinct (map fst recs)"
  shows "toBeUpdated E w q recs = [e \<leftarrow> obj_entries recs. map_of (table E w q) (fst e) \<noteq> None]"
proof -
  have l: "(\<lambda>(i, r). if map_of (table E w q) i \<noteq> None then AList.update i r else id)
        = (\<lambda>e acc. case (if map_of (table E w q) (fst e) \<noteq> None then Some (snd e) else None) of
                     None \<Rightarrow> acc | Some v \<Rightarrow> AList.update (fst e) v acc)"
    by (auto simp: fun_eq_iff)
  show ?thesis
    unfolding toBeUpdated_def l
    using fold_collect[OF distinct_obj_entries[OF assms], of "[]"
        "\<lambda>e. if map_of (table E w q) (fst e) \<noteq> None then Some (snd e) else None"]
    by (simp only: map_filter_select append_Nil) simp
qed

lemma toBeInserted_filter:
  assumes "distinct (map fst recs)"
  shows "toBeInserted E w q recs = [e \<leftarrow> obj_entries recs. map_of (table E w q) (fst e) = None]"
proof -
  have l: "(\<lambda>(i, r). if map_of (table E w q) i \<noteq> None then id else AList.update i r)
        = (\<lambda>e acc. case (if map_of (table E w q) (fst e) = None then Some (snd e) else None) of
                     None \<Rightarrow> acc | Some v \<Rightarrow> AList.update (fst e) v acc)"
    by (auto simp: fun_eq_iff)
  show ?thesis
    unfolding toBeInserted_def l
    using fold_collect[OF distinct_obj_entries[OF assms], of "[]"
        "\<lambda>e. if map_of (table E w q) (fst e) = None then Some (snd e) else None"]
    by (simp only: map_filter_select append_Nil) simp
qed

lemma hydrateMany_map:
  assumes "distinct (map fst X)"
  shows "hydrateMany E q X = map (\<lambda>e. (fst e, hydrate E q (Some (snd e)) None)) (obj_entries X)"
proof -
  have l: "(\<lambda>(i, r). AList.update i (hydrate E q (Some r) None))
        = (\<lambda>e acc. case Some (hydrate E q (Some (snd e)) None) of
                     None \<Rightarrow> acc | Some v \<Rightarrow> AList.update (fst e) v acc)"
    by (auto simp: fun_eq_iff)
  have m: "List.map_filter (\<lambda>e. map_option (Pair (fst e)) (Some (f e))) es = map (\<lambda>e. (fst e, f e)) es"
    for f :: "string \<times> val obj \<Rightarrow> inst" and es
    by (induction es) auto
  show ?thesis
    unfolding hydrateMany_def l
    using fold_collect[OF distinct_obj_entries[OF assms], of "[]"
        "\<lambda>e. Some (hydrate E q (Some (snd e)) None)"]
    by (simp only: m append_Nil) simp
qed

lemma combine_map:
  assumes "distinct (map fst X)" "\<forall>e \<in> set X. map_of (table E w q) (fst e) \<noteq> None"
  shows "combine E w q X =
           map (\<lambda>e. (fst e, merge_instance E q (the (map_of (table E w q) (fst e))) (snd e))) (obj_entries X)"
proof -
  have l: "(\<lambda>(i, r) instances.
             case map_of (table E w q) i of
               None \<Rightarrow> instances
             | Some instance \<Rightarrow> AList.update i (merge_instance E q instance r) instances)
        = (\<lambda>e acc. case map_option (\<lambda>instance. merge_instance E q instance (snd e)) (map_of (table E w q) (fst e)) of
                     None \<Rightarrow> acc | Some v \<Rightarrow> AList.update (fst e) v acc)"
    by (auto simp: fun_eq_iff split: option.splits)
  have m: "\<forall>e \<in> set es. map_of t (fst e) \<noteq> None \<Longrightarrow>
       List.map_filter (\<lambda>e. map_option (Pair (fst e)) (map_option (\<lambda>i. g i e) (map_of t (fst e)))) es
         = map (\<lambda>e. (fst e, g (the (map_of t (fst e))) e)) es"
    for g :: "inst \<Rightarrow> string \<times> val obj \<Rightarrow> inst" and es t
    by (induction es) auto
  have a: "\<forall>e \<in> set (obj_entries X). map_of (table E w q) (fst e) \<noteq> None"
    using assms by (simp add: set_obj_entries)
  show ?thesis
    unfolding combine_def l
    using fold_collect[OF distinct_obj_entries[OF assms(1)], of "[]"
        "\<lambda>e. map_option (\<lambda>instance. merge_instance E q instance (snd e)) (map_of (table E w q) (fst e))"]
      m[OF a, of "\<lambda>i e. merge_instance E q i (snd e)"]
    by (simp only: append_Nil) simp
qed

lemma no_hooks_no_veto:
  assumes "hooks_on w on = []" "\<forall>m. \<not> local_veto E q on m"
  shows "executeBeforeHookOnModels E q on models w = (models, w)"
proof -
  have h: "executeBeforeHook E q on m w = (ReturnsOther, w)" for m
    using assms
    by (auto simp: executeBeforeHook_def local_veto_def hooks_on_def executeGlobalBeforeMutationHooks_def
        split: option.splits)
  have s: "before_step E q on models k (ms, w) = (ms, w)" for k ms
    by (simp add: before_step_def h split: option.splits)
  have "fold (before_step E q on models) ks (ms, w) = (ms, w)" for ks ms
    by (induction ks) (simp_all add: s)
  then show ?thesis by (simp add: executeBeforeHookOnModels_def)
qed

lemma updateIndexes_stable:
  assumes "\<forall>(k, m) \<in> set ins. getIndexIdFromRecord E (entity q) m = k"
  shows "updateIndexes E q ins = ins"
proof -
  have s: "reindex_step E q k ins = ins" for k
  proof (cases "map_of ins k")
    case None
    then show ?thesis by (simp add: reindex_step_def)
  next
    case (Some m)
    then have "(k, m) \<in> set ins" by (rule map_of_SomeD)
    then have "getIndexIdFromRecord E (entity q) m = k" using assms by auto
    then show ?thesis by (simp add: reindex_step_def Some)
  qed
  have "fold (reindex_step E q) ks ins = ins" for ks
    by (induction ks) (simp_all add: s)
  then show ?thesis by (simp add: updateIndexes_def)
qed

lemma hooks_on_after_other:
  assumes "on \<noteq> on'"
  shows "hooks_on (executeAfterHookOnModels E q on' models w) on = hooks_on w on"
proof -
  have c: "hooks_on (cleanGlobalHooksOn on' v) on = hooks_on v on" for v
    using assms by (auto simp: hooks_on_def cleanGlobalHooksOn_def update_conv' split: option.splits)
  have a: "hooks_on (executeAfterHook E q on' m v) on = hooks_on v on" for m v
  proof (cases "map_of (hooks v) on'")
    case None
    then show ?thesis by (simp add: executeAfterHook_def executeGlobalAfterMutationHooks_def)
  next
    case (Some hs)
    have "hooks_on (log_calls hs m v) on = hooks_on v on" by (simp add: hooks_on_def log_calls_def)
    then show ?thesis
      by (simp add: executeAfterHook_def executeGlobalAfterMutationHooks_def Some c)
  qed
  have "hooks_on (fold (\<lambda>i w. case map_of models i of None \<Rightarrow> w | Some m \<Rightarrow> executeAfterHook E q on' m w) ks v) on
        = hooks_on v on" for ks v
    by (induction ks arbitrary: v) (auto simp: a split: option.splits)
  then show ?thesis by (simp add: executeAfterHookOnModels_def)
qed


lemma hooks_on_set_table [simp]: "hooks_on (set_table E q t w) on = hooks_on w on"
  by (simp add: hooks_on_def set_table_def)

lemma insertMany_no_veto:
  assumes "distinct (map fst X)" "hooks_on w ''beforeCreate'' = []" "\<forall>m. \<not> local_veto E q ''beforeCreate'' m"
  shows "length (fst (insertMany E q X w)) = length X"
    and "hooks_on (snd (insertMany E q X w)) ''beforeUpdate'' = hooks_on w ''beforeUpdate''"
    and "table E (snd (insertMany E q X w)) q = spread (table E w q) (hydrateMany E q X)"
proof -
  have b: "executeBeforeHookOnModels E q ''beforeCreate'' (hydrateMany E q X) w = (hydrateMany E q X, w)"
    using no_hooks_no_veto[OF assms(2,3)] .
  have "fst (insertMany E q X w) = map_instances (hydrateMany E q X)"
    by (simp add: insertMany_def b Let_def)
  then show "length (fst (insertMany E q X w)) = length X"
    by (simp add: hydrateMany_map[OF assms(1)])
  show "hooks_on (snd (insertMany E q X w)) ''beforeUpdate'' = hooks_on w ''beforeUpdate''"
    by (simp add: insertMany_def b Let_def hooks_on_after_other)
  show "table E (snd (insertMany E q X w)) q = spread (table E w q) (hydrateMany E q X)"
    by (simp add: insertMany_def b Let_def table_cong[OF tables_after_models])
qed

lemma updateMany_no_veto:
  assumes "distinct (map fst X)" "hooks_on w ''beforeUpdate'' = []" "\<forall>m. \<not> local_veto E q ''beforeUpdate'' m"
    and "\<forall>e \<in> set X. map_of (table E w q) (fst e) \<noteq> None"
    and "\<forall>(k, r) \<in> set X. \<forall>m. getIndexIdFromRecord E (entity q) (merge_instance E q m r) = k"
  shows "length (fst (updateMany E q X w)) = length X"
proof -
  let ?C = "combine E w q X"
  have c: "?C = map (\<lambda>e. (fst e, merge_instance E q (the (map_of (table E w q) (fst e))) (snd e))) (obj_entries X)"
    using combine_map[OF assms(1,4)] .
  have "\<forall>(k, m) \<in> set ?C. getIndexIdFromRecord E (entity q) m = k"
    using assms(5) by (auto simp: c set_obj_entries[OF assms(1)])
  then have u: "updateIndexes E q ?C = ?C" by (rule updateIndexes_stable)
  have b: "executeBeforeHookOnModels E q ''beforeUpdate'' ?C w = (?C, w)"
    using no_hooks_no_veto[OF assms(2,3)] .
  have "fst (updateMany E q X w) = map_instances ?C"
    by (simp add: updateMany_def commitUpdate_def commitUpdate_run_def u b Let_def)
  then show ?thesis by (simp add: c)
qed

text \<open>
  C1, amended.  The result of \<open>insertOrUpdate\<close> on a batch is the records processed
  through insert followed by the records processed through update.  When no global
  \<open>beforeCreate\<close> or \<open>beforeUpdate\<close> hook is registered, the local hooks veto nothing
  and every merged record keeps the index id it was submitted under, the two parts have
  as many records as the batch has new and existing ids, and the result is as long as
  the batch.
\<close>

theorem upsert_inserted_then_updated:
  assumes "distinct (map fst recs)"
    and "hooks_on w ''beforeCreate'' = []" and "hooks_on w ''beforeUpdate'' = []"
    and "\<forall>on m. \<not> local_veto E q on m"
    and "\<forall>(k, r) \<in> set recs. \<forall>m. getIndexIdFromRecord E (entity q) (merge_instance E q m r) = k"
  shows "fst (insertOrUpdateMany E q recs w)
           = fst (insertMany E q (toBeInserted E w q recs) w)
             @ fst (updateMany E q (toBeUpdated E w q recs) (snd (insertMany E q (toBeInserted E w q recs) w)))
       \<and> length (fst (insertMany E q (toBeInserted E w q recs) w))
           = length [e \<leftarrow> recs. map_of (table E w q) (fst e) = None]
       \<and> length (fst (updateMany E q (toBeUpdated E w q recs) (snd (insertMany E q (toBeInserted E w q recs) w))))
           = length [e \<leftarrow> recs. map_of (table E w q) (fst e) \<noteq> None]
       \<and> length (fst (insertOrUpdateMany E q recs w)) = length recs"
proof -
  let ?TI = "toBeInserted E w q recs" and ?TU = "toBeUpdated E w q recs"
  let ?w1 = "snd (insertMany E q ?TI w)"
  have ti: "?TI = [e \<leftarrow> obj_entries recs. map_of (table E w q) (fst e) = None]"
    using toBeInserted_filter[OF assms(1)] .
  have tu: "?TU = [e \<leftarrow> obj_entries recs. map_of (table E w q) (fst e) \<noteq> None]"
    using toBeUpdated_filter[OF assms(1)] .
  have de: "distinct (map fst (obj_entries recs))" using distinct_obj_entries[OF assms(1)] .
  have dti: "distinct (map fst ?TI)" unfolding ti using de by (simp add: distinct_map_filter)
  have dtu: "distinct (map fst ?TU)" unfolding tu using de by (simp add: distinct_map_filter)
  have lv1: "\<forall>m. \<not> local_veto E q ''beforeCreate'' m" and lv2: "\<forall>m. \<not> local_veto E q ''beforeUpdate'' m"
    using assms(4) by auto
  note im = insertMany_no_veto[OF dti assms(2) lv1]
  have li: "length (fst (insertMany E q ?TI w)) = length [e \<leftarrow> recs. map_of (table E w q) (fst e) = None]"
    using im(1) by (simp add: ti length_filter_obj_entries[OF assms(1)])
  have h1: "hooks_on ?w1 ''beforeUpdate'' = []" using im(2) assms(3) by simp
  have ex: "\<forall>e \<in> set ?TU. map_of (table E ?w1 q) (fst e) \<noteq> None"
    by (auto simp: tu im(3) map_of_spread map_add_def split: option.splits)
  have sb: "set ?TU \<subseteq> set recs" by (auto simp: tu set_obj_entries[OF assms(1)])
  have st: "\<forall>(k, r) \<in> set ?TU. \<forall>m. getIndexIdFromRecord E (entity q) (merge_instance E q m r) = k"
    using assms(5) sb by blast
  have lu: "length (fst (updateMany E q ?TU ?w1)) = length [e \<leftarrow> recs. map_of (table E w q) (fst e) \<noteq> None]"
    using updateMany_no_veto[OF dtu h1 lv2 ex st]
    by (simp add: tu length_filter_obj_entries[OF assms(1)])
  have cat: "fst (insertOrUpdateMany E q recs w)
           = fst (insertMany E q ?TI w) @ fst (updateMany E q ?TU ?w1)"
    by (simp add: insertOrUpdateMany_def split: prod.splits)
  have "length (fst (insertOrUpdateMany E q recs w)) = length recs"
    using li lu sum_length_filter_compl[of "\<lambda>e. map_of (table E w q) (fst e) = None" recs]
    by (simp add: cat)
  then show ?thesis using cat li lu by simp
qed




theorem upsert_inserted_then_updated_witness:
  "length (fst (insertOrUpdateMany demo_env (newQuery demo_env ''users'') upsert_batch demo_world)) = 2
   \<and> length (fst (insertMany demo_env (newQuery demo_env ''users'')
                 (toBeInserted demo_env demo_world (newQuery demo_env ''users'') upsert_batch) demo_world)) = 1"
proof -
  let ?q = "newQuery demo_env ''users''"
  have h1: "distinct (map fst upsert_batch)" by (simp add: upsert_batch_def)
  have h2: "hooks_on demo_world ''beforeCreate'' = []" "hooks_on demo_world ''beforeUpdate'' = []"
    by (simp_all add: hooks_on_def demo_world_simps)
  have h3: "\<forall>on m. \<not> local_veto demo_env ?q on m"
    by (simp add: local_veto_def demo_env_simps)
  have idx: "getIndexIdFromRecord demo_env (entity ?q) (merge_instance demo_env ?q m r)
      = key_of_val (field_of (spread (props m) r) ''id'')" for m r
    by (simp add: merge_instance_def hydrate_def demo_env_simps simple_index_id_def demo_pk_def
        simple_construct_def newQuery_def demo_modelFromRecord_def demo_base_def)
  have h4: "\<forall>(k, r) \<in> set upsert_batch. \<forall>m.
      getIndexIdFromRecord demo_env (entity ?q) (merge_instance demo_env ?q m r) = k"
    unfolding idx
    by (simp add: upsert_batch_def field_of_def map_of_spread map_add_def key_of_val_def
        string_of_int_def string_of_nat.simps)
  have t: "table demo_env demo_world ?q = [(''1'', user_a), (''2'', user_b)]"
    by (simp add: table_def newQuery_def demo_env_simps demo_base_def demo_world_simps)
  show ?thesis
    using upsert_inserted_then_updated[OF h1 h2 h3 h4]
    by (simp add: t upsert_batch_def)
qed



lemma ub_entries: "obj_entries upsert_batch = upsert_batch"
  by (simp add: upsert_batch_def js_eval)

lemma users_table: "table demo_env demo_world (newQuery demo_env ''users'') = [(''1'', user_a), (''2'', user_b)]"
  by (simp add: table_def newQuery_def demo_env_simps demo_base_def demo_world_simps)

lemma ub_split:
  "toBeUpdated demo_env demo_world (newQuery demo_env ''users'') upsert_batch
       = [(''1'', [(''id'', VNum 1), (''name'', VStr ''z''), (''$id'', VStr ''1'')])]"
  "toBeInserted demo_env demo_world (newQuery demo_env ''users'') upsert_batch
       = [(''3'', [(''id'', VNum 3), (''name'', VStr ''c''), (''$id'', VStr ''3'')])]"
  unfolding toBeUpdated_def toBeInserted_def ub_entries users_table
  by (simp_all add: upsert_batch_def)

lemma ub_insert:
  "insertMany demo_env (newQuery demo_env ''users'')
      [(''3'', [(''id'', VNum 3), (''name'', VStr ''c''), (''$id'', VStr ''3'')])] demo_world
   = ([user_c], demo_world \<lparr> tables := (tables demo_world) (''users'' := [(''1'', user_a), (''2'', user_b), (''3'', user_c)]) \<rparr>)"
  by (simp add: persist_eval hook_eval js_eval demo_env_simps demo_world_simps user_c_def)

lemma ub_update:
  "fst (updateMany demo_env (newQuery demo_env ''users'')
      [(''1'', [(''id'', VNum 1), (''name'', VStr ''z''), (''$id'', VStr ''1'')])]
      (demo_world \<lparr> tables := (tables demo_world) (''users'' := [(''1'', user_a), (''2'', user_b), (''3'', user_c)]) \<rparr>))
   = [renamed_a]"
  by (simp add: updateMany_def combine_def update_eval persist_eval hook_eval js_eval demo_env_simps
      demo_world_simps user_a_def renamed_a_def)

text \<open>
  C1, as stated, fails: for the batch with the existing id 1 and the new id 3 on the
  example table, \<open>insertOrUpdate\<close> returns the inserted record before the updated one.
\<close>

theorem upsert_returns_inserted_first:
  "fst (insertOrUpdateMany demo_env (newQuery demo_env ''users'') upsert_batch demo_world) = [user_c, renamed_a]
   \<and> toBeUpdated demo_env demo_world (newQuery demo_env ''users'') upsert_batch
       = [(''1'', [(''id'', VNum 1), (''name'', VStr ''z''), (''$id'', VStr ''1'')])]
   \<and> toBeInserted demo_env demo_world (newQuery demo_env ''users'') upsert_batch
       = [(''3'', [(''id'', VNum 3), (''name'', VStr ''c''), (''$id'', VStr ''3'')])]"
  by (simp add: insertOrUpdateMany_def ub_split ub_insert ub_update case_prod_beta)

end
